theory Spec2Isabelle
  imports Complex_Main
begin

section \<open>The collage creator: data model\<close>

text \<open>
  The program \<^verbatim>\<open>collage_creator.py\<close> lays photographs out on fixed-size pages.
  Python integers are unbounded and are modelled as \<^typ>\<open>int\<close> (\<^typ>\<open>nat\<close> for counts
  and indices); \<^verbatim>\<open>//\<close> is floor division, which is \<open>div\<close> on \<^typ>\<open>int\<close>.
  An exception of the source is a value of \<open>py_error\<close>, returned on the left of a sum.
\<close>

datatype py_error = ZeroDivisionError | ValueError | IndexError | OSError

text \<open>An image enters the geometry only through its size \<open>(width, height)\<close>.\<close>

type_synonym size = "int \<times> int"

text \<open>
  The tuples \<^verbatim>\<open>(img, filename, created_date)\<close> that \<^verbatim>\<open>load_images\<close> returns: the image
  (its size), the file name and the creation date (as it prints under the configured date
  format).
\<close>

type_synonym image = "size \<times> string \<times> string"

text \<open>
  The dictionary \<^verbatim>\<open>params\<close> of \<^verbatim>\<open>main\<close>, with the entries that enter a computation
  (colours, font and text size do not).
\<close>

record params =
  p_width :: int
  p_height :: int
  p_pics_per_page :: int
  p_border :: bool
  p_border_thickness :: int
  p_padding :: int
  p_align :: string
  p_text_opacity :: real
  p_prefix :: string
  p_info_box :: bool
  p_verbose :: bool

text \<open>
  What the program reads from outside: the rounding of float operations; whether Pillow's
  \<^verbatim>\<open>resize\<close> accepts a target size (otherwise \<^verbatim>\<open>ValueError\<close>); whether \<^verbatim>\<open>Image.new\<close>
  accepts a size (otherwise \<^verbatim>\<open>ValueError\<close>); whether \<^verbatim>\<open>ImageFont.truetype\<close> loads the
  caption font at the configured size and the info font at size 16 (otherwise
  \<^verbatim>\<open>OSError\<close>); whether \<^verbatim>\<open>save\<close> can write a file of a name (otherwise \<^verbatim>\<open>OSError\<close>);
  \<^verbatim>\<open>os.listdir('images')\<close> (\<open>None\<close> when the directory is missing); the modification time of
  \<^verbatim>\<open>images/<name>\<close>, printed under the configured date format (\<open>None\<close> when the file is
  missing); today's date as \<^verbatim>\<open>%Y%m%d\<close>; and the measured size \<open>(info_w, info_h)\<close> of the
  info text.
\<close>

record env =
  env_rnd :: "real \<Rightarrow> real"
  env_resize_ok :: "size \<Rightarrow> bool"
  env_new_ok :: "size \<Rightarrow> bool"
  env_font_ok :: bool
  env_info_font_ok :: bool
  env_save_ok :: "string \<Rightarrow> bool"
  env_listdir :: "string list option"
  env_mtime :: "string \<Rightarrow> string option"
  env_today :: string
  env_info_size :: size

text \<open>
  The canvas is modelled by the list of drawing operations applied to it, in order: an image
  of a size pasted at a position, and a text drawn at a position in a colour with an alpha
  value.
\<close>

type_synonym rgba = "int \<times> int \<times> int \<times> int"

datatype draw_op = Paste "int \<times> int" size | DrawText "int \<times> int" string rgba

subsection \<open>Floating-point arithmetic\<close>

text \<open>
  Three expressions of the source compute in Python floats (IEEE 754 doubles):
  \<^verbatim>\<open>num_imgs ** 0.5\<close>, the true divisions \<^verbatim>\<open>img_width / img.size[0]\<close> and the products
  \<^verbatim>\<open>img.size[0] * scale\<close>. The model takes the rounding of a float operation as a
  parameter \<open>rnd\<close>: the float result of an operation is \<open>rnd\<close> of its exact real result.
  \<open>int(x)\<close> on a float truncates towards zero.

  Theorems assume of \<open>rnd\<close> only what \<open>fp_round\<close> says, which holds of any faithful
  rounding to doubles: an integer of magnitude up to \<open>2 ^ 53\<close> is a double, so rounding
  never crosses it; and in the range from \<open>2 ^ -64\<close> to \<open>2 ^ 64\<close> (all normal numbers) the
  relative error is at most \<open>2 ^ -52\<close>, one unit in the last place. The rounding \<open>exact\<close>,
  which changes nothing, is the instance at which concrete inputs are evaluated.
\<close>

definition py_int :: "real \<Rightarrow> int" where
  "py_int x = (if 0 \<le> x then \<lfloor>x\<rfloor> else \<lceil>x\<rceil>)"

definition fp_round :: "(real \<Rightarrow> real) \<Rightarrow> bool" where
  "fp_round rnd \<longleftrightarrow>
     (\<forall>k::int. \<forall>x. \<bar>k\<bar> \<le> 2 ^ 53 \<and> of_int k \<le> x \<longrightarrow> of_int k \<le> rnd x) \<and>
     (\<forall>k::int. \<forall>x. \<bar>k\<bar> \<le> 2 ^ 53 \<and> x \<le> of_int k \<longrightarrow> rnd x \<le> of_int k) \<and>
     (\<forall>x. 1 / 2 ^ 64 \<le> x \<and> x \<le> 2 ^ 64 \<longrightarrow> \<bar>rnd x - x\<bar> \<le> x / 2 ^ 52)"

definition exact :: "real \<Rightarrow> real" where
  "exact x = x"

subsection \<open>\<^verbatim>\<open>find_empty_spot\<close> (source lines 9 to 21)\<close>

text \<open>
  The two nested \<^verbatim>\<open>for\<close> loops with their early \<^verbatim>\<open>return\<close> are the recursive
  functions \<open>scan_rows\<close> (outer loop over \<^verbatim>\<open>range(num_rows)\<close>) and \<open>scan_cols\<close> (inner loop
  over \<^verbatim>\<open>range(num_cols)\<close>). \<^verbatim>\<open>range(n)\<close> is the list \<open>[0..n - 1]\<close>, empty for
  \<open>n \<le> 0\<close>. Both floor divisions raise \<^verbatim>\<open>ZeroDivisionError\<close> on a zero divisor.
\<close>

definition fits :: "int \<Rightarrow> int \<Rightarrow> int \<Rightarrow> int \<Rightarrow> int \<Rightarrow> int \<times> int \<Rightarrow> bool" where
  "fits width height padding img_width img_height off =
     (fst off + img_width + padding \<le> width \<and> snd off + img_height + padding \<le> height)"

definition cell_offset :: "int \<Rightarrow> int \<Rightarrow> int \<Rightarrow> int \<Rightarrow> int \<Rightarrow> int \<times> int" where
  "cell_offset padding img_width img_height row_idx col_idx =
     (col_idx * (img_width + padding) + padding, row_idx * (img_height + padding) + padding)"

fun scan_cols :: "int \<Rightarrow> int \<Rightarrow> int \<Rightarrow> int \<Rightarrow> int \<Rightarrow> int \<Rightarrow> int list \<Rightarrow> (int \<times> int) option" where
  "scan_cols width height padding img_width img_height row_idx [] = None"
| "scan_cols width height padding img_width img_height row_idx (col_idx # cols) =
     (if fits width height padding img_width img_height
           (cell_offset padding img_width img_height row_idx col_idx)
      then Some (cell_offset padding img_width img_height row_idx col_idx)
      else scan_cols width height padding img_width img_height row_idx cols)"

fun scan_rows :: "int \<Rightarrow> int \<Rightarrow> int \<Rightarrow> int \<Rightarrow> int \<Rightarrow> int list \<Rightarrow> int list \<Rightarrow> (int \<times> int) option" where
  "scan_rows width height padding img_width img_height cols [] = None"
| "scan_rows width height padding img_width img_height cols (row_idx # rows) =
     (case scan_cols width height padding img_width img_height row_idx cols of
        Some spot \<Rightarrow> Some spot
      | None \<Rightarrow> scan_rows width height padding img_width img_height cols rows)"

definition find_empty_spot :: "int \<Rightarrow> int \<Rightarrow> int \<Rightarrow> int \<Rightarrow> int \<Rightarrow> py_error + (int \<times> int) option" where
  "find_empty_spot width height padding img_width img_height =
     (if img_width + padding = 0 \<or> img_height + padding = 0 then Inl ZeroDivisionError
      else
        let num_cols = (width + padding) div (img_width + padding);
            num_rows = (height + padding) div (img_height + padding)
        in Inr (scan_rows width height padding img_width img_height
                  [0..num_cols - 1] [0..num_rows - 1]))"

subsection \<open>Grid layout in \<^verbatim>\<open>create_collage\<close> (source lines 47 to 51)\<close>

text \<open>
  \<^verbatim>\<open>num_cols = int(num_imgs ** 0.5)
  num_rows = -(-num_imgs // num_cols)
  img_width, img_height = (width - p['padding'] * (num_cols + 1)) // num_cols,
                          (height - p['padding'] * (num_rows + 1)) // num_rows\<close>
  Each floor division raises \<^verbatim>\<open>ZeroDivisionError\<close> on a zero divisor. The result is
  \<open>(num_cols, num_rows, img_width, img_height)\<close>; the last two are the cell size.
\<close>

definition grid_layout ::
  "(real \<Rightarrow> real) \<Rightarrow> nat \<Rightarrow> int \<Rightarrow> int \<Rightarrow> int \<Rightarrow> py_error + (int \<times> int \<times> int \<times> int)" where
  "grid_layout rnd num_imgs width height padding =
     (let num_cols = py_int (rnd (sqrt (real num_imgs))) in
      if num_cols = 0 then Inl ZeroDivisionError
      else
        let num_rows = - ((- int num_imgs) div num_cols) in
        if num_rows = 0 then Inl ZeroDivisionError
        else Inr (num_cols, num_rows,
                  (width - padding * (num_cols + 1)) div num_cols,
                  (height - padding * (num_rows + 1)) div num_rows))"

subsection \<open>Orientation correction (source lines 61 and 62)\<close>

text \<open>
  \<^verbatim>\<open>if img.size[0] > img.size[1] and width < height or
     img.size[0] < img.size[1] and width > height:
      img = img.rotate(90, expand=True)\<close>
  Rotating by 90 degrees with \<^verbatim>\<open>expand=True\<close> swaps the two dimensions.
\<close>

definition rotates :: "size \<Rightarrow> int \<Rightarrow> int \<Rightarrow> bool" where
  "rotates sz width height =
     (fst sz > snd sz \<and> width < height \<or> fst sz < snd sz \<and> width > height)"

definition rotate90 :: "size \<Rightarrow> size" where
  "rotate90 sz = (snd sz, fst sz)"

definition orient :: "size \<Rightarrow> int \<Rightarrow> int \<Rightarrow> size" where
  "orient sz width height = (if rotates sz width height then rotate90 sz else sz)"

subsection \<open>Scaling (source lines 64 to 66)\<close>

text \<open>
  \<^verbatim>\<open>scale = min(img_width / img.size[0], img_height / img.size[1])
  img = img.resize((int(img.size[0] * scale), int(img.size[1] * scale)), ...)\<close>
  Here \<^verbatim>\<open>img\<close> is the image after the orientation correction. A true division by a zero
  dimension raises \<^verbatim>\<open>ZeroDivisionError\<close>. \<open>fit_image\<close> is the size handed to
  \<^verbatim>\<open>resize\<close>.
\<close>

definition scale_factor :: "(real \<Rightarrow> real) \<Rightarrow> int \<Rightarrow> int \<Rightarrow> size \<Rightarrow> real" where
  "scale_factor rnd img_width img_height sz =
     min (rnd (of_int img_width / of_int (fst sz))) (rnd (of_int img_height / of_int (snd sz)))"

definition scaled_size :: "(real \<Rightarrow> real) \<Rightarrow> int \<Rightarrow> int \<Rightarrow> size \<Rightarrow> size" where
  "scaled_size rnd img_width img_height sz =
     (let scale = scale_factor rnd img_width img_height sz
      in (py_int (rnd (of_int (fst sz) * scale)), py_int (rnd (of_int (snd sz) * scale))))"

definition fit_image ::
  "(real \<Rightarrow> real) \<Rightarrow> int \<Rightarrow> int \<Rightarrow> int \<Rightarrow> int \<Rightarrow> size \<Rightarrow> py_error + size" where
  "fit_image rnd width height img_width img_height sz =
     (let sz1 = orient sz width height
      in if fst sz1 = 0 \<or> snd sz1 = 0 then Inl ZeroDivisionError
         else Inr (scaled_size rnd img_width img_height sz1))"

subsection \<open>Placement, border and caption (source lines 57 to 97)\<close>

text \<open>
  The body of the loop \<^verbatim>\<open>for i, (img, filename, created_date) in enumerate(imgs)\<close> is
  \<open>place_image\<close>, in the order of the source: \<^verbatim>\<open>divmod(i, num_cols)\<close>, orientation and
  scaling, \<^verbatim>\<open>resize\<close>, the verbose report (which reads the modification time of
  \<^verbatim>\<open>images/filename\<close>), the offsets computed from the size of the resized image, the
  border added around it (a new image of the larger size, made by \<^verbatim>\<open>Image.new\<close>), the
  paste, and the date string
  \<^verbatim>\<open>os.path.getmtime(os.path.join('images', os.listdir('images')[i]))\<close> drawn twice.
  Any exception ends the whole of \<^verbatim>\<open>create_collage\<close>; \<open>place_all\<close> is the loop. The alpha
  mask of line 87 has the size of the image it is made for, and making it is taken to
  succeed.
\<close>

definition x_offset_of :: "string \<Rightarrow> int \<Rightarrow> int \<Rightarrow> int \<Rightarrow> int \<Rightarrow> int" where
  "x_offset_of align col_idx img_width padding w =
     (if align = ''left'' then col_idx * (img_width + padding) + padding
      else if align = ''right'' then (col_idx + 1) * (img_width + padding) - w
      else col_idx * (img_width + padding) + (img_width - w) div 2 + padding)"

definition y_offset_of :: "int \<Rightarrow> int \<Rightarrow> int \<Rightarrow> int \<Rightarrow> int" where
  "y_offset_of row_idx img_height padding h =
     row_idx * (img_height + padding) + (img_height - h) div 2 + padding"

definition with_border :: "params \<Rightarrow> size \<Rightarrow> size" where
  "with_border p sz =
     (if p_border p
      then (fst sz + p_border_thickness p * 2, snd sz + p_border_thickness p * 2)
      else sz)"

definition date_str_at :: "env \<Rightarrow> nat \<Rightarrow> py_error + string" where
  "date_str_at env i =
     (case env_listdir env of
        None \<Rightarrow> Inl OSError
      | Some names \<Rightarrow>
          if length names \<le> i then Inl IndexError
          else (case env_mtime env (names ! i) of
                  None \<Rightarrow> Inl OSError
                | Some date_str \<Rightarrow> Inr date_str))"

definition place_image ::
  "env \<Rightarrow> params \<Rightarrow> int \<Rightarrow> int \<Rightarrow> int \<Rightarrow> int \<Rightarrow> int \<Rightarrow> bool \<Rightarrow> nat \<Rightarrow> image
     \<Rightarrow> py_error + draw_op list" where
  "place_image env p width height num_cols img_width img_height verbose i im =
     (let row_idx = int i div num_cols;
          col_idx = int i mod num_cols
      in case fit_image (env_rnd env) width height img_width img_height (fst im) of
           Inl e \<Rightarrow> Inl e
         | Inr sz \<Rightarrow>
             if \<not> env_resize_ok env sz then Inl ValueError
             else if verbose \<and> env_mtime env (fst (snd im)) = None then Inl OSError
             else
               let x_offset = x_offset_of (p_align p) col_idx img_width (p_padding p) (fst sz);
                   y_offset = y_offset_of row_idx img_height (p_padding p) (snd sz)
               in if p_border p \<and> \<not> env_new_ok env (with_border p sz) then Inl ValueError
                  else
                    case date_str_at env i of
                      Inl e \<Rightarrow> Inl e
                    | Inr date_str \<Rightarrow>
                        let text_opacity = py_int (env_rnd env (255 * p_text_opacity p))
                        in Inr [Paste (x_offset, y_offset) (with_border p sz),
                                DrawText (x_offset + p_border_thickness p + 1,
                                          y_offset + p_border_thickness p + 1)
                                  date_str (0, 0, 0, text_opacity),
                                DrawText (x_offset + p_border_thickness p,
                                          y_offset + p_border_thickness p)
                                  date_str (255, 255, 255, text_opacity)])"

fun place_all ::
  "env \<Rightarrow> params \<Rightarrow> int \<Rightarrow> int \<Rightarrow> int \<Rightarrow> int \<Rightarrow> int \<Rightarrow> bool \<Rightarrow> nat \<Rightarrow> image list
     \<Rightarrow> py_error + draw_op list" where
  "place_all env p width height num_cols img_width img_height verbose i [] = Inr []"
| "place_all env p width height num_cols img_width img_height verbose i (im # imgs) =
     (case place_image env p width height num_cols img_width img_height verbose i im of
        Inl e \<Rightarrow> Inl e
      | Inr ops \<Rightarrow>
          (case place_all env p width height num_cols img_width img_height verbose (i + 1) imgs of
             Inl e \<Rightarrow> Inl e
           | Inr rest \<Rightarrow> Inr (ops @ rest)))"

subsection \<open>The info box (source lines 99 to 114)\<close>

text \<open>
  The info font is loaded (line 101), the text is measured, and the box, 20 pixels larger
  than the text on both axes, is made by \<^verbatim>\<open>Image.new\<close> (line 106) before the spot is
  looked for. A tuple is true in \<^verbatim>\<open>if empty_spot:\<close>, so every returned spot is used; without
  a spot only a message is printed.
\<close>

definition info_panel :: "env \<Rightarrow> params \<Rightarrow> int \<Rightarrow> int \<Rightarrow> py_error + draw_op list" where
  "info_panel env p width height =
     (if p_info_box p then
        if \<not> env_info_font_ok env then Inl OSError
        else
          let info_w = fst (env_info_size env); info_h = snd (env_info_size env)
          in if \<not> env_new_ok env (info_w + 20, info_h + 20) then Inl ValueError
             else
               case find_empty_spot width height (p_padding p) (info_w + 20) (info_h + 20) of
                 Inl e \<Rightarrow> Inl e
               | Inr None \<Rightarrow> Inr []
               | Inr (Some empty_spot) \<Rightarrow> Inr [Paste empty_spot (info_w + 20, info_h + 20)]
      else Inr [])"

subsection \<open>Output naming (source lines 116 to 120)\<close>

text \<open>
  \<^verbatim>\<open>collage_filename = f"{p['prefix']}-{datetime.now().strftime('%Y%m%d')}-{collage_id}.png"
  i = 1
  while os.path.exists(collage_filename):
      collage_filename = f"{p['prefix']}-{...}-{collage_id}-{i}.png"
      i += 1\<close>
  \<open>str_nat\<close> is Python's decimal \<^verbatim>\<open>str\<close> of a non-negative integer (page numbers and the
  counter start at 1). The date string \<open>today\<close> is an input: the model takes the date not
  to change while the loop runs. The existing files are a list of names, and
  \<^verbatim>\<open>os.path.exists\<close> is membership in it.
\<close>

definition digit_char :: "nat \<Rightarrow> char" where
  "digit_char d = ''0123456789'' ! d"

function str_nat :: "nat \<Rightarrow> string" where
  "str_nat n = (if n < 10 then [digit_char n] else str_nat (n div 10) @ [digit_char (n mod 10)])"
  by pat_completeness auto
termination
  by (relation "measure (\<lambda>n. n)") auto

definition page_name :: "string \<Rightarrow> string \<Rightarrow> nat \<Rightarrow> string" where
  "page_name prefix today collage_id =
     prefix @ ''-'' @ today @ ''-'' @ str_nat collage_id @ ''.png''"

definition page_name_suffixed :: "string \<Rightarrow> string \<Rightarrow> nat \<Rightarrow> nat \<Rightarrow> string" where
  "page_name_suffixed prefix today collage_id i =
     prefix @ ''-'' @ today @ ''-'' @ str_nat collage_id @ ''-'' @ str_nat i @ ''.png''"

text \<open>
  The loop ends because the formatted names differ for different counters and only
  finitely many files exist: \<open>taken_from\<close> counts the existing suffixed names from a counter
  on, and decreases with every name that is found to exist.
\<close>

declare str_nat.simps [simp del]

lemma digit_char_inj: "a < 10 \<Longrightarrow> b < 10 \<Longrightarrow> digit_char a = digit_char b \<Longrightarrow> a = b"
proof -
  assume a: "a < 10" and b: "b < 10" and e: "digit_char a = digit_char b"
  have d: "distinct ''0123456789''" by simp
  have "a < length ''0123456789''" "b < length ''0123456789''" using a b by simp_all
  then show "a = b" using e d unfolding digit_char_def by (simp only: nth_eq_iff_index_eq)
qed

lemma str_nat_nonempty: "str_nat n \<noteq> []"
  by (subst str_nat.simps) simp

lemma str_nat_inj: "str_nat m = str_nat n \<Longrightarrow> m = n"
proof (induction m arbitrary: n rule: str_nat.induct)
  case (1 m)
  show ?case
  proof (cases "m < 10")
    case m: True
    show ?thesis
    proof (cases "n < 10")
      case True
      then show ?thesis using m 1(2) digit_char_inj
        by (simp add: str_nat.simps [of m] str_nat.simps [of n])
    next
      case False
      then show ?thesis using m 1(2) str_nat_nonempty [of "n div 10"]
        by (simp add: str_nat.simps [of m] str_nat.simps [of n])
    qed
  next
    case m: False
    show ?thesis
    proof (cases "n < 10")
      case True
      then show ?thesis using m 1(2) str_nat_nonempty [of "m div 10"]
        by (simp add: str_nat.simps [of m] str_nat.simps [of n])
    next
      case False
      then have e: "str_nat (m div 10) = str_nat (n div 10)" "digit_char (m mod 10) = digit_char (n mod 10)"
        using m 1(2) by (simp_all add: str_nat.simps [of m] str_nat.simps [of n])
      have "m div 10 = n div 10" using 1(1) [OF m e(1)] .
      moreover have "m mod 10 = n mod 10" using e(2) by (simp add: digit_char_inj)
      ultimately show ?thesis by (metis div_mult_mod_eq)
    qed
  qed
qed

lemma page_name_suffixed_inj:
  "page_name_suffixed prefix today collage_id i = page_name_suffixed prefix today collage_id j \<Longrightarrow> i = j"
  by (simp add: page_name_suffixed_def str_nat_inj)

lemma finite_suffixes: "finite {j. page_name_suffixed prefix today collage_id j \<in> set files}"
proof -
  have "inj (page_name_suffixed prefix today collage_id)"
    by (rule injI) (rule page_name_suffixed_inj)
  then have "finite (page_name_suffixed prefix today collage_id -` set files)"
    by (simp add: finite_vimageI)
  then show ?thesis by (simp add: vimage_def)
qed

definition taken_from :: "string list \<Rightarrow> string \<Rightarrow> string \<Rightarrow> nat \<Rightarrow> nat \<Rightarrow> nat" where
  "taken_from files prefix today collage_id i =
     card {j. i \<le> j \<and> page_name_suffixed prefix today collage_id j \<in> set files}"

lemma taken_from_step:
  "page_name_suffixed prefix today collage_id i \<in> set files \<Longrightarrow>
   taken_from files prefix today collage_id i = Suc (taken_from files prefix today collage_id (i + 1))"
proof -
  assume a: "page_name_suffixed prefix today collage_id i \<in> set files"
  let ?S = "{j. i + 1 \<le> j \<and> page_name_suffixed prefix today collage_id j \<in> set files}"
  have f: "finite ?S" using finite_suffixes [of prefix today collage_id files] by simp
  have "{j. i \<le> j \<and> page_name_suffixed prefix today collage_id j \<in> set files} = insert i ?S"
    using a by (auto simp: le_Suc_eq)
  moreover have "i \<notin> ?S" by simp
  ultimately show ?thesis using f by (simp add: taken_from_def)
qed

lemma taken_from_skip:
  "page_name_suffixed prefix today collage_id i \<notin> set files \<Longrightarrow>
   taken_from files prefix today collage_id i = taken_from files prefix today collage_id (i + 1)"
proof -
  assume a: "page_name_suffixed prefix today collage_id i \<notin> set files"
  have "{j. i \<le> j \<and> page_name_suffixed prefix today collage_id j \<in> set files} =
        {j. i + 1 \<le> j \<and> page_name_suffixed prefix today collage_id j \<in> set files}"
    using a by (auto simp: le_Suc_eq Suc_le_eq) (metis le_neq_implies_less)
  then show ?thesis by (simp add: taken_from_def)
qed

function name_loop :: "string list \<Rightarrow> string \<Rightarrow> string \<Rightarrow> nat \<Rightarrow> string \<Rightarrow> nat \<Rightarrow> string" where
  "name_loop files prefix today collage_id collage_filename i =
     (if collage_filename \<in> set files
      then name_loop files prefix today collage_id
             (page_name_suffixed prefix today collage_id i) (i + 1)
      else collage_filename)"
  by pat_completeness auto
termination
proof (relation "measure (\<lambda>(files, prefix, today, collage_id, collage_filename, i).
          taken_from files prefix today collage_id i +
          (if collage_filename \<in> set files then 1 else 0))")
  show "wf (measure (\<lambda>(files, prefix, today, collage_id, collage_filename, i).
          taken_from files prefix today collage_id i +
          (if collage_filename \<in> set files then 1 else 0)))"
    by simp
next
  fix files :: "string list" and prefix today :: string and collage_id i :: nat
    and collage_filename :: string
  assume "collage_filename \<in> set files"
  then show "((files, prefix, today, collage_id, page_name_suffixed prefix today collage_id i, i + 1),
              (files, prefix, today, collage_id, collage_filename, i))
        \<in> measure (\<lambda>(files, prefix, today, collage_id, collage_filename, i).
          taken_from files prefix today collage_id i +
          (if collage_filename \<in> set files then 1 else 0))"
    using taken_from_step [of prefix today collage_id i files]
      taken_from_skip [of prefix today collage_id i files]
    by (cases "page_name_suffixed prefix today collage_id i \<in> set files") simp_all
qed

definition output_name :: "string list \<Rightarrow> string \<Rightarrow> string \<Rightarrow> nat \<Rightarrow> string" where
  "output_name files prefix today collage_id =
     name_loop files prefix today collage_id (page_name prefix today collage_id) 1"

subsection \<open>\<^verbatim>\<open>create_collage\<close> (source lines 46 to 127)\<close>

text \<open>
  The function returns the name of the saved file with the drawing operations of the page,
  or the exception, together with the files that exist afterwards: \<^verbatim>\<open>collage.save\<close> is
  the only write, and an exception before it leaves the files as they were. After the
  layout the canvas is made by \<^verbatim>\<open>Image.new\<close> (line 53) and the caption font is loaded
  (line 55); each may raise, as the environment says. A \<^verbatim>\<open>save\<close> that raises (line 122) is
  taken to leave no file.
\<close>

definition create_collage ::
  "env \<Rightarrow> image list \<Rightarrow> nat \<Rightarrow> int \<Rightarrow> int \<Rightarrow> params \<Rightarrow> bool \<Rightarrow> string list
     \<Rightarrow> (py_error + string \<times> draw_op list) \<times> string list" where
  "create_collage env imgs collage_id width height p verbose files =
     (case grid_layout (env_rnd env) (length imgs) width height (p_padding p) of
        Inl e \<Rightarrow> (Inl e, files)
      | Inr (num_cols, num_rows, img_width, img_height) \<Rightarrow>
          if \<not> env_new_ok env (width, height) then (Inl ValueError, files)
          else if \<not> env_font_ok env then (Inl OSError, files)
          else
            (case place_all env p width height num_cols img_width img_height verbose 0 imgs of
               Inl e \<Rightarrow> (Inl e, files)
             | Inr ops \<Rightarrow>
                 (case info_panel env p width height of
                    Inl e \<Rightarrow> (Inl e, files)
                  | Inr panel \<Rightarrow>
                      let collage_filename =
                            output_name files (p_prefix p) (env_today env) collage_id
                      in if \<not> env_save_ok env collage_filename then (Inl OSError, files)
                         else (Inr (collage_filename, ops @ panel),
                               collage_filename # files))))"

subsection \<open>Batching in \<^verbatim>\<open>main\<close> (source lines 185 to 194)\<close>

text \<open>
  \<^verbatim>\<open>collage_groups = [images[i:i + pics_per_page]
                     for i in range(0, total_images, pics_per_page)]\<close>
  \<^verbatim>\<open>range\<close> with a step raises \<^verbatim>\<open>ValueError\<close> when the step is zero and is empty when
  the step is negative; \<open>range_step\<close> is the range for a positive step. The slice
  \<^verbatim>\<open>images[i:i + k]\<close> is \<open>take k (drop i images)\<close>. The loop
  \<^verbatim>\<open>for idx, group in enumerate(collage_groups)\<close> builds page \<open>idx + 1\<close> from \<open>group\<close>.
\<close>

function range_step :: "nat \<Rightarrow> nat \<Rightarrow> nat \<Rightarrow> nat list" where
  "range_step i stop step =
     (if 0 < step \<and> i < stop then i # range_step (i + step) stop step else [])"
  by pat_completeness auto
termination
  by (relation "measure (\<lambda>(i, stop, step). stop - i)") auto

definition collage_groups :: "'a list \<Rightarrow> int \<Rightarrow> py_error + 'a list list" where
  "collage_groups images pics_per_page =
     (if pics_per_page = 0 then Inl ValueError
      else if pics_per_page < 0 then Inr []
      else Inr (map (\<lambda>i. take (nat pics_per_page) (drop i images))
                  (range_step 0 (length images) (nat pics_per_page))))"

definition numbered_groups :: "'a list list \<Rightarrow> (nat \<times> 'a list) list" where
  "numbered_groups groups = map (\<lambda>(idx, group). (idx + 1, group)) (enumerate 0 groups)"

text \<open>The loop of \<^verbatim>\<open>main\<close> builds the pages in order; an exception ends the run.\<close>

fun build_pages ::
  "env \<Rightarrow> params \<Rightarrow> (nat \<times> image list) list \<Rightarrow> string list
     \<Rightarrow> (py_error + (string \<times> draw_op list) list) \<times> string list" where
  "build_pages env p [] files = (Inr [], files)"
| "build_pages env p ((collage_id, grp) # rest) files =
     (case create_collage env grp collage_id (p_width p) (p_height p) p (p_verbose p) files of
        (Inl e, files') \<Rightarrow> (Inl e, files')
      | (Inr page, files') \<Rightarrow>
          (case build_pages env p rest files' of
             (Inl e, files'') \<Rightarrow> (Inl e, files'')
           | (Inr pages, files'') \<Rightarrow> (Inr (page # pages), files'')))"

definition generate_collages ::
  "env \<Rightarrow> params \<Rightarrow> image list \<Rightarrow> string list
     \<Rightarrow> (py_error + (string \<times> draw_op list) list) \<times> string list" where
  "generate_collages env p images files =
     (case collage_groups images (p_pics_per_page p) of
        Inl e \<Rightarrow> (Inl e, files)
      | Inr groups \<Rightarrow> build_pages env p (numbered_groups groups) files)"

subsection \<open>A concrete run\<close>

text \<open>
  For concrete inputs: exact arithmetic, a \<^verbatim>\<open>resize\<close> that accepts sizes of at least one
  pixel on both axes, an \<^verbatim>\<open>Image.new\<close> that accepts non-negative sizes, fonts that load,
  a \<^verbatim>\<open>save\<close> that succeeds, and a directory \<^verbatim>\<open>images\<close> of two files modified on
  different days.
\<close>

definition demo_env :: env where
  "demo_env = \<lparr> env_rnd = exact, env_resize_ok = (\<lambda>sz. 1 \<le> fst sz \<and> 1 \<le> snd sz),
            env_new_ok = (\<lambda>sz. 0 \<le> fst sz \<and> 0 \<le> snd sz),
            env_font_ok = True, env_info_font_ok = True, env_save_ok = (\<lambda>name. True),
            env_listdir = Some [''a.jpg'', ''b.jpg''],
            env_mtime = [''a.jpg'' \<mapsto> ''01-01'', ''b.jpg'' \<mapsto> ''02-02''],
            env_today = ''20240101'', env_info_size = (600, 200) \<rparr>"

definition demo_params :: params where
  "demo_params = \<lparr> p_width = 1012, p_height = 1012, p_pics_per_page = 1, p_border = True,
         p_border_thickness = 4, p_padding = 6, p_align = ''right'', p_text_opacity = 1,
         p_prefix = ''collage'', p_info_box = False, p_verbose = True \<rparr>"

section \<open>The free-region scanner\<close>

text \<open>
  The reading of the specification: the page is tiled by cells of the panel's size plus
  padding, and the tiles are scanned in row-major order for the first one whose footprint
  fits.
\<close>

definition row_major_tiling :: "int \<Rightarrow> int \<Rightarrow> int \<Rightarrow> int \<Rightarrow> int \<Rightarrow> (int \<times> int) list" where
  "row_major_tiling width height padding panel_w panel_h =
     concat (map (\<lambda>r. map (\<lambda>c. (c * (panel_w + padding) + padding, r * (panel_h + padding) + padding))
                          [0..(width + padding) div (panel_w + padding) - 1])
                 [0..(height + padding) div (panel_h + padding) - 1])"

definition first_fitting_cell :: "int \<Rightarrow> int \<Rightarrow> int \<Rightarrow> int \<Rightarrow> int \<Rightarrow> (int \<times> int) option" where
  "first_fitting_cell width height padding panel_w panel_h =
     List.find (\<lambda>(x, y). x + panel_w + padding \<le> width \<and> y + panel_h + padding \<le> height)
       (row_major_tiling width height padding panel_w panel_h)"

lemma scan_cols_find:
  "scan_cols W H p iw ih r cs =
     List.find (\<lambda>(x, y). x + iw + p \<le> W \<and> y + ih + p \<le> H)
       (map (\<lambda>c. (c * (iw + p) + p, r * (ih + p) + p)) cs)"
  by (induction cs) (simp_all add: fits_def cell_offset_def)

lemma find_append:
  "List.find P (xs @ ys) = (case List.find P xs of Some x \<Rightarrow> Some x | None \<Rightarrow> List.find P ys)"
  by (induction xs) simp_all

lemma scan_rows_find:
  "scan_rows W H p iw ih cs rs =
     List.find (\<lambda>(x, y). x + iw + p \<le> W \<and> y + ih + p \<le> H)
       (concat (map (\<lambda>r. map (\<lambda>c. (c * (iw + p) + p, r * (ih + p) + p)) cs) rs))"
  by (induction rs) (simp_all add: scan_cols_find find_append split: option.splits)

lemma find_empty_spot_first_fit:
  "iw + p \<noteq> 0 \<Longrightarrow> ih + p \<noteq> 0 \<Longrightarrow>
   find_empty_spot W H p iw ih = Inr (first_fitting_cell W H p iw ih)"
  by (simp add: find_empty_spot_def first_fitting_cell_def row_major_tiling_def scan_rows_find Let_def)

lemma scan_cols_None:
  "(\<And>c. c \<in> set cs \<Longrightarrow> \<not> fits W H p iw ih (cell_offset p iw ih r c)) \<Longrightarrow>
   scan_cols W H p iw ih r cs = None"
  by (induction cs) simp_all

lemma scan_rows_None:
  "(\<And>r c. r \<in> set rs \<Longrightarrow> c \<in> set cs \<Longrightarrow> \<not> fits W H p iw ih (cell_offset p iw ih r c)) \<Longrightarrow>
   scan_rows W H p iw ih cs rs = None"
  by (induction rs) (simp_all add: scan_cols_None)

lemma scan_rows_first:
  assumes "1 \<le> nc" "1 \<le> nr" "fits W H p iw ih (p, p)"
  shows "scan_rows W H p iw ih [0..nc - 1] [0..nr - 1] = Some (p, p)"
proof -
  have c: "[0..nc - 1] = 0 # [1..nc - 1]" using assms(1) by (simp add: upto_rec1)
  have r: "[0..nr - 1] = 0 # [1..nr - 1]" using assms(2) by (simp add: upto_rec1)
  show ?thesis using assms(3) by (simp add: c r cell_offset_def)
qed

lemma no_fit_x:
  assumes "0 < iw + p" "W < 2 * p + iw" "0 \<le> c"
  shows "\<not> fits W H p iw ih (cell_offset p iw ih r c)"
proof -
  have "0 \<le> c * (iw + p)" using assms(1,3) by simp
  then show ?thesis using assms(2) by (simp add: fits_def cell_offset_def)
qed

lemma no_fit_y:
  assumes "0 < ih + p" "H < 2 * p + ih" "0 \<le> r"
  shows "\<not> fits W H p iw ih (cell_offset p iw ih r c)"
proof -
  have "0 \<le> r * (ih + p)" using assms(1,3) by simp
  then show ?thesis using assms(2) by (simp add: fits_def cell_offset_def)
qed

lemma find_empty_spot_no_fit_x:
  assumes "0 < iw + p" "ih + p \<noteq> 0" "W < 2 * p + iw"
  shows "find_empty_spot W H p iw ih = Inr None"
proof -
  have "scan_rows W H p iw ih [0..(W + p) div (iw + p) - 1] [0..(H + p) div (ih + p) - 1] = None"
    by (rule scan_rows_None) (simp add: no_fit_x assms)
  then show ?thesis using assms by (simp add: find_empty_spot_def Let_def)
qed

lemma find_empty_spot_no_fit_y:
  assumes "iw + p \<noteq> 0" "0 < ih + p" "H < 2 * p + ih"
  shows "find_empty_spot W H p iw ih = Inr None"
proof -
  have "scan_rows W H p iw ih [0..(W + p) div (iw + p) - 1] [0..(H + p) div (ih + p) - 1] = None"
    by (rule scan_rows_None) (simp add: no_fit_y assms)
  then show ?thesis using assms by (simp add: find_empty_spot_def Let_def)
qed

lemma find_empty_spot_no_tiles:
  assumes "iw + p \<noteq> 0" "ih + p \<noteq> 0"
    "(W + p) div (iw + p) \<le> 0 \<or> (H + p) div (ih + p) \<le> 0"
  shows "find_empty_spot W H p iw ih = Inr None"
proof -
  have "scan_rows W H p iw ih [0..(W + p) div (iw + p) - 1] [0..(H + p) div (ih + p) - 1] = None"
    by (rule scan_rows_None) (use assms(3) in auto)
  then show ?thesis using assms by (simp add: find_empty_spot_def Let_def)
qed

lemma find_empty_spot_fit:
  assumes "iw + p \<noteq> 0" "ih + p \<noteq> 0"
    "1 \<le> (W + p) div (iw + p)" "1 \<le> (H + p) div (ih + p)"
    "2 * p + iw \<le> W" "2 * p + ih \<le> H"
  shows "find_empty_spot W H p iw ih = Inr (Some (p, p))"
  using assms by (simp add: find_empty_spot_def Let_def scan_rows_first fits_def)

lemma find_empty_spot_none_or_top_left:
  assumes "0 \<le> width" "0 \<le> height" "0 \<le> img_width" "0 \<le> img_height"
    and "img_width + padding \<noteq> 0" "img_height + padding \<noteq> 0"
  shows "find_empty_spot width height padding img_width img_height = Inr None \<or>
         find_empty_spot width height padding img_width img_height = Inr (Some (padding, padding))"
proof (cases "(width + padding) div (img_width + padding) \<le> 0 \<or>
              (height + padding) div (img_height + padding) \<le> 0")
  case True
  then show ?thesis using assms(5,6) by (simp add: find_empty_spot_no_tiles)
next
  case False
  show ?thesis
  proof (cases "2 * padding + img_width \<le> width")
    case x: True
    show ?thesis
    proof (cases "2 * padding + img_height \<le> height")
      case True
      then show ?thesis using x False assms(5,6) by (simp add: find_empty_spot_fit)
    next
      case y: False
      have "0 < img_height + padding" using y assms(2,4,6) by linarith
      then show ?thesis using y assms(5) by (simp add: find_empty_spot_no_fit_y)
    qed
  next
    case x: False
    have "0 < img_width + padding" using x assms(1,3,5) by linarith
    then show ?thesis using x assms(6) by (simp add: find_empty_spot_no_fit_x)
  qed
qed

lemma find_empty_spot_zero_stride:
  "img_width + padding = 0 \<or> img_height + padding = 0 \<Longrightarrow>
   find_empty_spot width height padding img_width img_height = Inl ZeroDivisionError"
  by (simp add: find_empty_spot_def)

text \<open>
  Claim C10, as stated, is about every page width, height, padding and panel size. With a
  padding of \<open>-5\<close> and a panel 5 wide the first floor division is by zero and the function
  raises instead of returning; and for a page of negative size, with a padding of \<open>-10\<close>,
  the tiles move up and left and the scan returns \<open>(-45, -45)\<close>, which is not
  \<open>(padding, padding)\<close>.
\<close>

theorem find_empty_spot_stride_counterexample:
  "find_empty_spot 100 100 (- 5) 5 10 = Inl ZeroDivisionError \<and>
   find_empty_spot (- 50) (- 50) (- 10) 5 5 = Inr (Some (- 45, - 45))"
  by code_simp

text \<open>
  Claim C10, amended: for a page and a panel of non-negative width and height and every
  padding, \<open>find_empty_spot\<close> raises \<^verbatim>\<open>ZeroDivisionError\<close> when the panel width plus the
  padding or the panel height plus the padding is zero, and otherwise returns either \<open>None\<close>
  or exactly the position \<open>(padding, padding)\<close>: the fit test looks at the page, the panel
  and the padding only, never at the cells that hold photos, and no tile passes it when the
  top-left tile fails, so a panel that is placed sits in the top-left corner of the page.
\<close>

theorem find_empty_spot_top_left:
  assumes "0 \<le> width" "0 \<le> height" "0 \<le> img_width" "0 \<le> img_height"
  shows "(img_width + padding = 0 \<or> img_height + padding = 0 \<longrightarrow>
            find_empty_spot width height padding img_width img_height = Inl ZeroDivisionError) \<and>
         (img_width + padding \<noteq> 0 \<and> img_height + padding \<noteq> 0 \<longrightarrow>
            find_empty_spot width height padding img_width img_height = Inr None \<or>
            find_empty_spot width height padding img_width img_height
              = Inr (Some (padding, padding)))"
  using find_empty_spot_none_or_top_left [OF assms] find_empty_spot_zero_stride by blast

theorem find_empty_spot_top_left_witness:
  "find_empty_spot 5100 6600 6 900 300 = Inr (Some (6, 6)) \<and>
   find_empty_spot 500 6600 6 900 300 = Inr None \<and>
   find_empty_spot 5100 6600 (- 900) 900 300 = Inl ZeroDivisionError"
proof -
  have a: "find_empty_spot 5100 6600 6 900 300 \<noteq> Inr None" by code_simp
  have b: "find_empty_spot 500 6600 6 900 300 \<noteq> Inr (Some (6, 6))" by code_simp
  have h: "(0::int) \<le> 5100" "(0::int) \<le> 6600" "(0::int) \<le> 900" "(0::int) \<le> 300"
    "(0::int) \<le> 500" by simp_all
  show ?thesis
    using find_empty_spot_top_left [OF h(1,2,3,4), of 6]
      find_empty_spot_top_left [OF h(5,2,3,4), of 6]
      find_empty_spot_top_left [OF h(1,2,3,4), of "- 900"] a b
    by simp
qed

text \<open>
  Claim C5, as stated: the scanner returns none when the panel exceeds the page and a cell
  otherwise. A panel of 95 by 50 does not exceed a page of 100 by 100, and with a padding
  of 6 the scanner returns none all the same: the fit test counts the padding on both sides.
\<close>

theorem find_empty_spot_margin_counterexample:
  "\<not> (100::int) < 95 \<and> \<not> (100::int) < 50 \<and> find_empty_spot 100 100 6 95 50 = Inr None"
  by code_simp

text \<open>
  Claim C5, amended: for a non-negative padding and a panel of positive size, the scanner
  returns the first fitting cell of the row-major scan of the panel-sized tiling; it returns
  none exactly when the panel plus twice the padding exceeds the page on some axis (so in
  particular when the panel alone exceeds the page), and otherwise the cell it returns is
  \<open>(padding, padding)\<close>, whose offset plus panel size plus padding stays within the page.
\<close>

theorem find_empty_spot_scan:
  assumes "0 \<le> padding" "0 < panel_w" "0 < panel_h"
  shows "find_empty_spot width height padding panel_w panel_h =
           Inr (first_fitting_cell width height padding panel_w panel_h) \<and>
         (width < panel_w \<or> height < panel_h \<longrightarrow>
            find_empty_spot width height padding panel_w panel_h = Inr None) \<and>
         (find_empty_spot width height padding panel_w panel_h = Inr None \<longleftrightarrow>
            width < panel_w + 2 * padding \<or> height < panel_h + 2 * padding) \<and>
         (panel_w + 2 * padding \<le> width \<and> panel_h + 2 * padding \<le> height \<longrightarrow>
            find_empty_spot width height padding panel_w panel_h = Inr (Some (padding, padding)) \<and>
            padding + panel_w + padding \<le> width \<and> padding + panel_h + padding \<le> height)"
proof -
  have sx: "0 < panel_w + padding" and sy: "0 < panel_h + padding" using assms by simp_all
  have fit: "find_empty_spot width height padding panel_w panel_h = Inr (Some (padding, padding))"
    if "panel_w + 2 * padding \<le> width" "panel_h + 2 * padding \<le> height"
  proof -
    have "panel_w + padding \<le> width + padding" "panel_h + padding \<le> height + padding"
      using that assms(1) by simp_all
    then have "0 < (width + padding) div (panel_w + padding)"
      "0 < (height + padding) div (panel_h + padding)"
      using sx sy by (simp_all add: pos_imp_zdiv_pos_iff)
    then show ?thesis using that sx sy by (simp add: find_empty_spot_fit)
  qed
  have nofit: "find_empty_spot width height padding panel_w panel_h = Inr None"
    if "width < panel_w + 2 * padding \<or> height < panel_h + 2 * padding"
    using that sx sy by (auto simp add: find_empty_spot_no_fit_x find_empty_spot_no_fit_y)
  have 1: "find_empty_spot width height padding panel_w panel_h =
           Inr (first_fitting_cell width height padding panel_w panel_h)"
    using sx sy by (simp add: find_empty_spot_first_fit)
  have 2: "width < panel_w \<or> height < panel_h \<longrightarrow>
            find_empty_spot width height padding panel_w panel_h = Inr None"
    using nofit assms(1) by auto
  have 3: "find_empty_spot width height padding panel_w panel_h = Inr None \<longleftrightarrow>
            width < panel_w + 2 * padding \<or> height < panel_h + 2 * padding"
    using nofit fit by (cases "width < panel_w + 2 * padding \<or> height < panel_h + 2 * padding") auto
  have 4: "panel_w + 2 * padding \<le> width \<and> panel_h + 2 * padding \<le> height \<longrightarrow>
            find_empty_spot width height padding panel_w panel_h = Inr (Some (padding, padding)) \<and>
            padding + panel_w + padding \<le> width \<and> padding + panel_h + padding \<le> height"
    using fit by auto
  show ?thesis using 1 2 3 4 by blast
qed

theorem find_empty_spot_scan_witness:
  "(0::int) \<le> 6 \<and> (0::int) < 900 \<and> (0::int) < 300 \<and>
   find_empty_spot 5100 6600 6 900 300 = Inr (first_fitting_cell 5100 6600 6 900 300) \<and>
   find_empty_spot 5100 6600 6 900 300 = Inr (Some (6, 6)) \<and>
   find_empty_spot 800 6600 6 900 300 = Inr None \<and>
   find_empty_spot 905 6600 6 900 300 = Inr None"
proof -
  have h: "(0::int) \<le> 6" "(0::int) < 900" "(0::int) < 300" by simp_all
  have n: "(900::int) + 2 * 6 \<le> 5100 \<and> (300::int) + 2 * 6 \<le> 6600" "(800::int) < 900"
    "(905::int) < 900 + 2 * 6" by simp_all
  show ?thesis
    using find_empty_spot_scan [OF h, of 5100 6600] find_empty_spot_scan [OF h, of 800 6600]
      find_empty_spot_scan [OF h, of 905 6600] h n
    by blast
qed

section \<open>Orientation\<close>

text \<open>
  Claim C4, as stated: the image is rotated if and only if \<open>(imgW > imgH)\<close> differs from
  \<open>(pageW > pageH)\<close>, square cases included. This fails for a square image on a landscape
  page: the two comparisons differ, and the source does not rotate.
\<close>

theorem rotates_square_counterexample:
  "\<not> (rotates (100, 100) 6600 5100 \<longleftrightarrow> (((100::int) > 100) \<noteq> ((6600::int) > 5100)))"
  by (simp add: rotates_def)

text \<open>
  Claim C4, amended: when neither the image nor the page is square, the image is rotated
  if and only if \<open>(imgW > imgH)\<close> differs from \<open>(pageW > pageH)\<close>; a square image is never
  rotated, and nothing is rotated on a square page.
\<close>

theorem rotates_iff:
  "(w \<noteq> h \<and> W \<noteq> H \<longrightarrow> (rotates (w, h) W H \<longleftrightarrow> ((w > h) \<noteq> (W > H)))) \<and>
   (w = h \<or> W = H \<longrightarrow> \<not> rotates (w, h) W H)"
  by (auto simp: rotates_def)

theorem rotates_iff_witness:
  "(4000::int) \<noteq> 3000 \<and> (5100::int) \<noteq> 6600 \<and> rotates (4000, 3000) 5100 6600 \<and>
   ((4000::int) > 3000) \<noteq> ((5100::int) > 6600) \<and>
   \<not> rotates (3000, 3000) 5100 6600 \<and> \<not> rotates (4000, 3000) 5100 5100"
  using rotates_iff [of 4000 3000 5100 6600] rotates_iff [of 3000 3000 5100 6600]
    rotates_iff [of 4000 3000 5100 5100]
  by simp

section \<open>Floating-point rounding\<close>

lemma fp_round_lower: "fp_round rnd \<Longrightarrow> \<bar>k\<bar> \<le> 2 ^ 53 \<Longrightarrow> of_int k \<le> x \<Longrightarrow> of_int k \<le> rnd x"
  unfolding fp_round_def by blast

lemma fp_round_upper: "fp_round rnd \<Longrightarrow> \<bar>k\<bar> \<le> 2 ^ 53 \<Longrightarrow> x \<le> of_int k \<Longrightarrow> rnd x \<le> of_int k"
  unfolding fp_round_def by blast

lemma fp_round_rel:
  "fp_round rnd \<Longrightarrow> 1 / 2 ^ 64 \<le> x \<Longrightarrow> x \<le> 2 ^ 64 \<Longrightarrow> \<bar>rnd x - x\<bar> \<le> x / 2 ^ 52"
  unfolding fp_round_def by blast


lemma fp_round_bounds:
  assumes "fp_round rnd" "1 / 2 ^ 64 \<le> x" "x \<le> 2 ^ 64"
  shows "rnd x \<le> x * (1 + 1 / 2 ^ 52)" and "x * (1 - 1 / 2 ^ 52) \<le> rnd x"
proof -
  have rel: "\<bar>rnd x - x\<bar> \<le> x / 2 ^ 52" using assms by (rule fp_round_rel)
  have e: "x + x / 2 ^ 52 = x * (1 + 1 / 2 ^ 52)" "x - x / 2 ^ 52 = x * (1 - 1 / 2 ^ 52)"
    by (simp_all add: algebra_simps)
  have "rnd x \<le> x + x / 2 ^ 52" "x - x / 2 ^ 52 \<le> rnd x" using rel by linarith+
  then show "rnd x \<le> x * (1 + 1 / 2 ^ 52)" "x * (1 - 1 / 2 ^ 52) \<le> rnd x"
    unfolding e by simp_all
qed

lemma py_int_sqrt:
  assumes r: "fp_round rnd" and n: "1 \<le> n" "n < 2 ^ 50"
  shows "py_int (rnd (sqrt (real n))) = \<lfloor>sqrt (real n)\<rfloor>" and "1 \<le> \<lfloor>sqrt (real n)\<rfloor>"
proof -
  define s where "s = sqrt (real n)"
  define k where "k = \<lfloor>s\<rfloor>"
  have s1: "1 \<le> s" using n(1) by (simp add: s_def)
  have ss: "s * s = real n" by (simp add: s_def)
  have sB: "s \<le> 2 ^ 25"
  proof -
    have "real n \<le> (2 ^ 25)\<^sup>2" using n(2) by simp
    then show ?thesis unfolding s_def by (rule real_le_lsqrt [rotated 1]) simp
  qed
  have k1: "1 \<le> k" using s1 by (simp add: k_def le_floor_iff)
  have ks: "of_int k \<le> s" "s < of_int k + 1" by (simp_all add: k_def)
  have kB: "\<bar>k\<bar> \<le> 2 ^ 53" "\<bar>k + 1\<bar> \<le> 2 ^ 53"
  proof -
    have "real_of_int k \<le> 2 ^ 25" using ks(1) sB by linarith
    then have "k \<le> 2 ^ 25" by (metis of_int_le_iff of_int_numeral of_int_power)
    then show "\<bar>k\<bar> \<le> 2 ^ 53" "\<bar>k + 1\<bar> \<le> 2 ^ 53" using k1 by simp_all
  qed
  have lo: "of_int k \<le> rnd s" using fp_round_lower [OF r kB(1) ks(1)] .
  have n1: "real n + 1 \<le> (of_int k + 1) * (of_int k + 1)"
  proof -
    have "s * s < (of_int k + 1) * (of_int k + 1)"
      using ks(2) s1 by (intro mult_strict_mono) simp_all
    then have "real n < real_of_int ((k + 1) * (k + 1))" using ss by simp
    then have "int n < (k + 1) * (k + 1)" by (metis of_int_less_iff of_int_of_nat_eq)
    then have "int n + 1 \<le> (k + 1) * (k + 1)" by simp
    then have "real_of_int (int n + 1) \<le> real_of_int ((k + 1) * (k + 1))" by (simp only: of_int_le_iff)
    then show ?thesis by simp
  qed
  have rel: "\<bar>rnd s - s\<bar> \<le> s / 2 ^ 52"
    using s1 sB by (intro fp_round_rel [OF r]) simp_all
  have up: "rnd s < of_int k + 1"
  proof (rule ccontr)
    assume "\<not> rnd s < of_int k + 1"
    then have "of_int k + 1 \<le> s + s / 2 ^ 52" using rel by linarith
    also have "\<dots> = s * (1 + 1 / 2 ^ 52)" by (simp add: algebra_simps)
    finally have "of_int k + 1 \<le> s * (1 + 1 / 2 ^ 52)" .
    moreover have "0 \<le> real_of_int k + 1" using k1 by simp
    ultimately have "(of_int k + 1) * (of_int k + 1) \<le> (s * (1 + 1 / 2 ^ 52)) * (s * (1 + 1 / 2 ^ 52))"
      by (intro mult_mono) simp_all
    also have "\<dots> = real n * ((1 + 1 / 2 ^ 52) * (1 + 1 / 2 ^ 52))" using ss by (simp add: algebra_simps)
    finally have "real n + 1 \<le> real n * ((1 + 1 / 2 ^ 52) * (1 + 1 / 2 ^ 52))" using n1 by linarith
    moreover have "real n * ((1 + 1 / 2 ^ 52) * (1 + 1 / 2 ^ 52)) \<le> real n + real n * (3 / 2 ^ 52)"
      by (simp add: algebra_simps)
    moreover have "real n * (3 / 2 ^ 52) < 1"
    proof -
      have "real n < 2 ^ 50" using n(2) by (metis of_nat_less_iff of_nat_numeral of_nat_power)
      then show ?thesis by simp
    qed
    ultimately show False by linarith
  qed
  have pos: "0 \<le> rnd s" using lo k1 by linarith
  have "\<lfloor>rnd s\<rfloor> = k" using lo up by (simp add: floor_eq_iff)
  then show "py_int (rnd (sqrt (real n))) = \<lfloor>sqrt (real n)\<rfloor>"
    using pos by (simp add: py_int_def s_def [symmetric] k_def)
  show "1 \<le> \<lfloor>sqrt (real n)\<rfloor>" using k1 by (simp add: k_def s_def)
qed

section \<open>The image fitter\<close>

lemma fp_quotient:
  fixes c w :: int
  assumes r: "fp_round rnd" and c: "1 \<le> c" "c \<le> 2 ^ 50" and w: "1 \<le> w" "w \<le> 2 ^ 50"
  shows "1 / 2 ^ 50 * (1 - 1 / 2 ^ 52) \<le> rnd (of_int c / of_int w)"
    and "of_int w * rnd (of_int c / of_int w) \<le> of_int c * (1 + 1 / 2 ^ 52)"
proof -
  define x :: real where "x = of_int c / of_int w"
  have cr: "1 \<le> real_of_int c" "real_of_int c \<le> 2 ^ 50" using c by (simp_all add: of_int_le_numeral_power_cancel_iff)
  have wr: "1 \<le> real_of_int w" "real_of_int w \<le> 2 ^ 50" using w by (simp_all add: of_int_le_numeral_power_cancel_iff)
  have xl: "1 / 2 ^ 50 \<le> x"
  proof -
    have "1 / 2 ^ 50 \<le> 1 / real_of_int w" using wr by (intro divide_left_mono) simp_all
    also have "\<dots> \<le> x" unfolding x_def using cr wr by (intro divide_right_mono) simp_all
    finally show ?thesis .
  qed
  have xu: "x \<le> 2 ^ 50"
  proof -
    have "x \<le> real_of_int c / 1" unfolding x_def using cr wr by (intro divide_left_mono) simp_all
    then show ?thesis using cr by simp
  qed
  have xr: "1 / 2 ^ 64 \<le> x" "x \<le> 2 ^ 64" using xl xu by simp_all
  have "x * (1 - 1 / 2 ^ 52) \<le> rnd x" using fp_round_bounds [OF r xr] by simp
  moreover have "1 / 2 ^ 50 * (1 - 1 / 2 ^ 52) \<le> x * (1 - 1 / 2 ^ 52)"
    using xl by (intro mult_right_mono) simp_all
  ultimately show "1 / 2 ^ 50 * (1 - 1 / 2 ^ 52) \<le> rnd (of_int c / of_int w)"
    unfolding x_def by linarith
  have "rnd x \<le> x * (1 + 1 / 2 ^ 52)" using fp_round_bounds [OF r xr] by simp
  then have "of_int w * rnd x \<le> of_int w * (x * (1 + 1 / 2 ^ 52))"
    using wr by (intro mult_left_mono) simp_all
  also have "\<dots> = of_int c * (1 + 1 / 2 ^ 52)" using wr by (simp add: x_def)
  finally show "of_int w * rnd (of_int c / of_int w) \<le> of_int c * (1 + 1 / 2 ^ 52)"
    unfolding x_def .
qed

lemma fp_axis:
  fixes c w :: int and s :: real
  assumes r: "fp_round rnd" and c: "1 \<le> c" "c \<le> 2 ^ 50" and w: "1 \<le> w" "w \<le> 2 ^ 50"
    and s: "1 / 2 ^ 51 \<le> s" "of_int w * s \<le> of_int c * (1 + 1 / 2 ^ 52)"
  shows "0 \<le> py_int (rnd (of_int w * s))" and "py_int (rnd (of_int w * s)) \<le> c"
    and "\<bar>of_int (py_int (rnd (of_int w * s))) - of_int w * s\<bar> \<le> 1"
proof -
  define x :: real where "x = of_int w * s"
  define k where "k = \<lfloor>x\<rfloor>"
  have cr: "1 \<le> real_of_int c" "real_of_int c \<le> 2 ^ 50" using c by (simp_all add: of_int_le_numeral_power_cancel_iff)
  have wr: "1 \<le> real_of_int w" "real_of_int w \<le> 2 ^ 50" using w by (simp_all add: of_int_le_numeral_power_cancel_iff)
  have xl: "1 / 2 ^ 51 \<le> x"
  proof -
    have "1 / 2 ^ 51 \<le> 1 * s" using s(1) by simp
    also have "\<dots> \<le> real_of_int w * s" using wr s(1) by (intro mult_right_mono) simp_all
    finally show ?thesis by (simp add: x_def)
  qed
  have xc: "x \<le> of_int c * (1 + 1 / 2 ^ 52)" using s(2) by (simp add: x_def)
  have xu: "x \<le> 2 ^ 51"
  proof -
    have "of_int c * (1 + 1 / 2 ^ 52) \<le> (2 ^ 50 :: real) * (1 + 1 / 2 ^ 52)"
      using cr by (intro mult_right_mono) simp_all
    then show ?thesis using xc by simp
  qed
  have xr: "1 / 2 ^ 64 \<le> x" "x \<le> 2 ^ 64" using xl xu by simp_all
  have "rnd x \<le> x * (1 + 1 / 2 ^ 52)" using fp_round_bounds [OF r xr] by simp
  also have "\<dots> \<le> (of_int c * (1 + 1 / 2 ^ 52)) * (1 + 1 / 2 ^ 52)"
    using xc by (intro mult_right_mono) simp_all
  also have "\<dots> = of_int c + of_int c * (2 / 2 ^ 52 + 1 / 2 ^ 104)" by (simp add: algebra_simps)
  also have "\<dots> < of_int c + 1"
  proof -
    have "real_of_int c * (2 / 2 ^ 52 + 1 / 2 ^ 104) \<le> 2 ^ 50 * (2 / 2 ^ 52 + 1 / 2 ^ 104)"
      using cr by (intro mult_right_mono) simp_all
    then show ?thesis by simp
  qed
  finally have up: "rnd x < of_int c + 1" .
  have x0: "0 \<le> x" using xl by simp
  have k0: "0 \<le> k" using x0 by (simp add: k_def)
  have kx: "of_int k \<le> x" "x \<le> of_int (k + 1)" by (simp_all add: k_def)
  have kB: "\<bar>k\<bar> \<le> 2 ^ 53" "\<bar>k + 1\<bar> \<le> 2 ^ 53"
  proof -
    have "real_of_int k \<le> 2 ^ 51" using kx(1) xu by linarith
    then have "k \<le> 2 ^ 51" by (simp add: of_int_le_numeral_power_cancel_iff)
    then show "\<bar>k\<bar> \<le> 2 ^ 53" "\<bar>k + 1\<bar> \<le> 2 ^ 53" using k0 by simp_all
  qed
  have lo: "of_int k \<le> rnd x" using fp_round_lower [OF r kB(1) kx(1)] .
  have hi: "rnd x \<le> of_int (k + 1)" using fp_round_upper [OF r kB(2) kx(2)] .
  have pos: "0 \<le> rnd x" using lo k0 by linarith
  have m: "py_int (rnd x) = \<lfloor>rnd x\<rfloor>" using pos by (simp add: py_int_def)
  have mk: "k \<le> \<lfloor>rnd x\<rfloor>" using lo by (simp add: le_floor_iff)
  have mk1: "\<lfloor>rnd x\<rfloor> \<le> k + 1" using hi by (metis floor_mono floor_of_int)
  show "0 \<le> py_int (rnd (of_int w * s))" using m mk k0 unfolding x_def by linarith
  have "rnd x < of_int (c + 1)" using up by simp
  then have "\<lfloor>rnd x\<rfloor> < c + 1" by (simp only: floor_less_iff)
  then show "py_int (rnd (of_int w * s)) \<le> c" using m unfolding x_def by linarith
  have "x - 1 \<le> of_int \<lfloor>rnd x\<rfloor>" "real_of_int \<lfloor>rnd x\<rfloor> \<le> x + 1"
  proof -
    have "x - 1 \<le> of_int k" using kx(2) by simp
    also have "\<dots> \<le> of_int \<lfloor>rnd x\<rfloor>" using mk by simp
    finally show "x - 1 \<le> of_int \<lfloor>rnd x\<rfloor>" .
    have "real_of_int \<lfloor>rnd x\<rfloor> \<le> of_int (k + 1)" using mk1 by (simp only: of_int_le_iff)
    also have "\<dots> \<le> x + 1" using kx(1) by simp
    finally show "real_of_int \<lfloor>rnd x\<rfloor> \<le> x + 1" .
  qed
  then show "\<bar>of_int (py_int (rnd (of_int w * s))) - of_int w * s\<bar> \<le> 1"
    using m unfolding x_def by (simp add: abs_le_iff)
qed

lemma fp_round_exact: "fp_round exact"
  by (simp add: fp_round_def exact_def)

lemma scale_factor_bounds:
  fixes cw ch w h :: int
  assumes r: "fp_round rnd" and cw: "1 \<le> cw" "cw \<le> 2 ^ 50" and ch: "1 \<le> ch" "ch \<le> 2 ^ 50"
    and w: "1 \<le> w" "w \<le> 2 ^ 50" and h: "1 \<le> h" "h \<le> 2 ^ 50"
  shows "1 / 2 ^ 51 \<le> scale_factor rnd cw ch (w, h)"
    and "of_int w * scale_factor rnd cw ch (w, h) \<le> of_int cw * (1 + 1 / 2 ^ 52)"
    and "of_int h * scale_factor rnd cw ch (w, h) \<le> of_int ch * (1 + 1 / 2 ^ 52)"
proof -
  define a where "a = rnd (of_int cw / of_int w)"
  define b where "b = rnd (of_int ch / of_int h)"
  have s: "scale_factor rnd cw ch (w, h) = min a b" by (simp add: scale_factor_def a_def b_def)
  have a: "1 / 2 ^ 50 * (1 - 1 / 2 ^ 52) \<le> a" "of_int w * a \<le> of_int cw * (1 + 1 / 2 ^ 52)"
    unfolding a_def using fp_quotient [OF r cw w] by simp_all
  have b: "1 / 2 ^ 50 * (1 - 1 / 2 ^ 52) \<le> b" "of_int h * b \<le> of_int ch * (1 + 1 / 2 ^ 52)"
    unfolding b_def using fp_quotient [OF r ch h] by simp_all
  have c: "(1::real) / 2 ^ 51 \<le> 1 / 2 ^ 50 * (1 - 1 / 2 ^ 52)" by simp
  show "1 / 2 ^ 51 \<le> scale_factor rnd cw ch (w, h)" using a(1) b(1) c unfolding s by linarith
  have "real_of_int w * min a b \<le> of_int w * a" using w(1) by (intro mult_left_mono) simp_all
  then show "of_int w * scale_factor rnd cw ch (w, h) \<le> of_int cw * (1 + 1 / 2 ^ 52)"
    using a(2) unfolding s by linarith
  have "real_of_int h * min a b \<le> of_int h * b" using h(1) by (intro mult_left_mono) simp_all
  then show "of_int h * scale_factor rnd cw ch (w, h) \<le> of_int ch * (1 + 1 / 2 ^ 52)"
    using b(2) unfolding s by linarith
qed

lemma scaled_size_bounds:
  fixes cw ch w h :: int
  assumes r: "fp_round rnd" and cw: "1 \<le> cw" "cw \<le> 2 ^ 50" and ch: "1 \<le> ch" "ch \<le> 2 ^ 50"
    and w: "1 \<le> w" "w \<le> 2 ^ 50" and h: "1 \<le> h" "h \<le> 2 ^ 50"
  shows "0 \<le> fst (scaled_size rnd cw ch (w, h)) \<and> fst (scaled_size rnd cw ch (w, h)) \<le> cw \<and>
         0 \<le> snd (scaled_size rnd cw ch (w, h)) \<and> snd (scaled_size rnd cw ch (w, h)) \<le> ch \<and>
         \<bar>of_int (fst (scaled_size rnd cw ch (w, h))) - of_int w * scale_factor rnd cw ch (w, h)\<bar> \<le> 1 \<and>
         \<bar>of_int (snd (scaled_size rnd cw ch (w, h))) - of_int h * scale_factor rnd cw ch (w, h)\<bar> \<le> 1 \<and>
         \<bar>fst (scaled_size rnd cw ch (w, h)) * h - snd (scaled_size rnd cw ch (w, h)) * w\<bar> \<le> w + h"
proof -
  define s where "s = scale_factor rnd cw ch (w, h)"
  define fw where "fw = py_int (rnd (of_int w * s))"
  define fh where "fh = py_int (rnd (of_int h * s))"
  have sz: "scaled_size rnd cw ch (w, h) = (fw, fh)"
    by (simp add: scaled_size_def Let_def fw_def fh_def s_def)
  note sb = scale_factor_bounds [OF r cw ch w h, folded s_def]
  note xw = fp_axis [OF r cw w sb(1) sb(2), folded fw_def]
  note xh = fp_axis [OF r ch h sb(1) sb(3), folded fh_def]
  define d1 where "d1 = real_of_int fw - of_int w * s"
  define d2 where "d2 = real_of_int fh - of_int h * s"
  have d: "\<bar>d1\<bar> \<le> 1" "\<bar>d2\<bar> \<le> 1" using xw(3) xh(3) by (simp_all add: d1_def d2_def)
  have "real_of_int (fw * h - fh * w) = d1 * of_int h - d2 * of_int w"
    by (simp add: d1_def d2_def algebra_simps)
  moreover have "\<bar>d1 * real_of_int h\<bar> \<le> 1 * real_of_int h"
    unfolding abs_mult using d(1) h(1) by (intro mult_mono) simp_all
  moreover have "\<bar>d2 * real_of_int w\<bar> \<le> 1 * real_of_int w"
    unfolding abs_mult using d(2) w(1) by (intro mult_mono) simp_all
  ultimately have "\<bar>real_of_int (fw * h - fh * w)\<bar> \<le> real_of_int (w + h)" by simp
  then have cross: "\<bar>fw * h - fh * w\<bar> \<le> w + h"
    by (metis of_int_abs of_int_le_iff)
  show ?thesis using xw xh cross unfolding sz s_def [symmetric] by simp
qed

lemma fit_image_scaled_fits:
  fixes cellW cellH w h :: int
  assumes "fp_round rnd"
    and "0 < w" "w \<le> 2 ^ 50" "0 < h" "h \<le> 2 ^ 50"
    and "0 < cellW" "cellW \<le> 2 ^ 50" "0 < cellH" "cellH \<le> 2 ^ 50"
  shows "\<exists>ow oh fw fh.
           (ow, oh) = (if rotates (w, h) pageW pageH then (h, w) else (w, h)) \<and>
           fit_image rnd pageW pageH cellW cellH (w, h) = Inr (fw, fh) \<and>
           0 \<le> fw \<and> fw \<le> cellW \<and> 0 \<le> fh \<and> fh \<le> cellH \<and>
           \<bar>of_int fw - of_int ow * scale_factor rnd cellW cellH (ow, oh)\<bar> \<le> 1 \<and>
           \<bar>of_int fh - of_int oh * scale_factor rnd cellW cellH (ow, oh)\<bar> \<le> 1 \<and>
           \<bar>fw * oh - fh * ow\<bar> \<le> ow + oh"
proof (cases "rotates (w, h) pageW pageH")
  case True
  have f: "fit_image rnd pageW pageH cellW cellH (w, h) = Inr (scaled_size rnd cellW cellH (h, w))"
    using True assms(2,4) by (simp add: fit_image_def orient_def rotate90_def Let_def)
  have "1 \<le> h" "1 \<le> w" "1 \<le> cellW" "1 \<le> cellH" using assms by simp_all
  from scaled_size_bounds [OF assms(1) this(3) assms(7) this(4) assms(9) this(1) assms(5) this(2) assms(3)]
  show ?thesis using True f
    by (intro exI [of _ h] exI [of _ w] exI [of _ "fst (scaled_size rnd cellW cellH (h, w))"]
          exI [of _ "snd (scaled_size rnd cellW cellH (h, w))"]) simp
next
  case False
  have f: "fit_image rnd pageW pageH cellW cellH (w, h) = Inr (scaled_size rnd cellW cellH (w, h))"
    using False assms(2,4) by (simp add: fit_image_def orient_def Let_def)
  have "1 \<le> h" "1 \<le> w" "1 \<le> cellW" "1 \<le> cellH" using assms by simp_all
  from scaled_size_bounds [OF assms(1) this(3) assms(7) this(4) assms(9) this(2) assms(3) this(1) assms(5)]
  show ?thesis using False f
    by (intro exI [of _ w] exI [of _ h] exI [of _ "fst (scaled_size rnd cellW cellH (w, h))"]
          exI [of _ "snd (scaled_size rnd cellW cellH (w, h))"]) simp
qed

lemma fit_image_demo:
  "fit_image exact 1012 1012 1000 1000 (2000, 4000) = Inr (500, 1000)"
  by (simp add: fit_image_def orient_def rotates_def scaled_size_def scale_factor_def exact_def
      py_int_def Let_def)

text \<open>
  Claim C3, as stated, is about the fitted image, which the Image Fitter hands on with its
  border when the border is enabled. An image of 2000 by 4000 for a cell of 1000 by 1000 is
  scaled to 500 by 1000; with a border of 4 pixels the image that is placed is 508 by
  1008, higher than the cell.
\<close>

theorem fit_image_border_counterexample:
  "fit_image exact 1012 1012 1000 1000 (2000, 4000) = Inr (500, 1000) \<and>
   p_border demo_params \<and> p_border_thickness demo_params = 4 \<and>
   with_border demo_params (500, 1000) = (508, 1008) \<and>
   \<not> snd (with_border demo_params (500, 1000)) \<le> 1000"
  by (simp add: fit_image_demo with_border_def demo_params_def)

text \<open>
  Claim C3, amended: for every image of positive size and every positive cell size, the
  image as scaled by the Image Fitter, before the border is added, is at most as wide and as
  high as the cell, and its aspect ratio is the original's within rounding: each scaled
  dimension is within one pixel of the oriented dimension times the common scale factor, so
  the cross-multiplied ratios differ by at most \<open>ow + oh\<close>, where \<open>(ow, oh)\<close> is the
  original size with width and height swapped when the image was rotated. The border, when
  enabled, adds twice its thickness on both axes, so the fitted image with its border is
  at most the cell size plus twice the thickness; it is within the cell when the border
  is off. All sizes are at most \<open>2 ^ 50\<close>, where doubles are exact enough.
\<close>

theorem fit_image_fits:
  fixes cellW cellH w h :: int
  assumes "fp_round rnd"
    and "0 < w" "w \<le> 2 ^ 50" "0 < h" "h \<le> 2 ^ 50"
    and "0 < cellW" "cellW \<le> 2 ^ 50" "0 < cellH" "cellH \<le> 2 ^ 50"
  shows "\<exists>ow oh fw fh.
           (ow, oh) = (if rotates (w, h) pageW pageH then (h, w) else (w, h)) \<and>
           fit_image rnd pageW pageH cellW cellH (w, h) = Inr (fw, fh) \<and>
           0 \<le> fw \<and> fw \<le> cellW \<and> 0 \<le> fh \<and> fh \<le> cellH \<and>
           \<bar>of_int fw - of_int ow * scale_factor rnd cellW cellH (ow, oh)\<bar> \<le> 1 \<and>
           \<bar>of_int fh - of_int oh * scale_factor rnd cellW cellH (ow, oh)\<bar> \<le> 1 \<and>
           \<bar>fw * oh - fh * ow\<bar> \<le> ow + oh \<and>
           with_border p (fw, fh) =
             (if p_border p
              then (fw + p_border_thickness p * 2, fh + p_border_thickness p * 2)
              else (fw, fh)) \<and>
           (\<not> p_border p \<longrightarrow>
              fst (with_border p (fw, fh)) \<le> cellW \<and> snd (with_border p (fw, fh)) \<le> cellH) \<and>
           (p_border p \<longrightarrow>
              fst (with_border p (fw, fh)) \<le> cellW + p_border_thickness p * 2 \<and>
              snd (with_border p (fw, fh)) \<le> cellH + p_border_thickness p * 2)"
proof -
  from fit_image_scaled_fits [OF assms, of pageW pageH]
  obtain ow oh fw fh where f:
    "(ow, oh) = (if rotates (w, h) pageW pageH then (h, w) else (w, h))"
    "fit_image rnd pageW pageH cellW cellH (w, h) = Inr (fw, fh)"
    "0 \<le> fw" "fw \<le> cellW" "0 \<le> fh" "fh \<le> cellH"
    "\<bar>of_int fw - of_int ow * scale_factor rnd cellW cellH (ow, oh)\<bar> \<le> 1"
    "\<bar>of_int fh - of_int oh * scale_factor rnd cellW cellH (ow, oh)\<bar> \<le> 1"
    "\<bar>fw * oh - fh * ow\<bar> \<le> ow + oh"
    by blast
  have b: "with_border p (fw, fh) =
             (if p_border p
              then (fw + p_border_thickness p * 2, fh + p_border_thickness p * 2)
              else (fw, fh))"
    by (simp add: with_border_def)
  have c: "\<not> p_border p \<longrightarrow>
              fst (with_border p (fw, fh)) \<le> cellW \<and> snd (with_border p (fw, fh)) \<le> cellH"
    using f(4,6) by (simp add: with_border_def)
  have d: "p_border p \<longrightarrow>
              fst (with_border p (fw, fh)) \<le> cellW + p_border_thickness p * 2 \<and>
              snd (with_border p (fw, fh)) \<le> cellH + p_border_thickness p * 2"
    using f(4,6) by (simp add: with_border_def)
  show ?thesis using f b c d by blast
qed

theorem fit_image_fits_witness:
  "fit_image exact 5100 6600 1000 1000 (4000, 3000) = Inr (750, 1000) \<and>
   rotates (4000, 3000) 5100 6600 \<and> (750::int) \<le> 1000 \<and>
   \<bar>(750::int) * 4000 - 1000 * 3000\<bar> \<le> 3000 + 4000 \<and>
   with_border demo_params (750, 1000) = (758, 1008) \<and>
   fst (with_border demo_params (750, 1000)) \<le> 1000 + p_border_thickness demo_params * 2 \<and>
   snd (with_border demo_params (750, 1000)) \<le> 1000 + p_border_thickness demo_params * 2"
proof -
  have e: "fit_image exact 5100 6600 1000 1000 (4000, 3000) = Inr (750, 1000)"
    by (simp add: fit_image_def orient_def rotate90_def rotates_def scaled_size_def
        scale_factor_def exact_def py_int_def Let_def)
  have r: "rotates (4000, 3000) 5100 6600" by (simp add: rotates_def)
  have b: "p_border demo_params" "p_border_thickness demo_params = 4"
    by (simp_all add: demo_params_def)
  show ?thesis
    using fit_image_fits [OF fp_round_exact, of 4000 3000 1000 1000 5100 6600 demo_params] e r b
    by auto
qed

section \<open>The grid layout\<close>

lemma neg_div_ceiling:
  fixes n c :: int
  assumes "0 < c"
  shows "n \<le> (- ((- n) div c)) * c" and "(- ((- n) div c) - 1) * c < n"
proof -
  have e: "(- n) div c * c + (- n) mod c = - n" by simp
  have m: "0 \<le> (- n) mod c" "(- n) mod c < c" using assms by simp_all
  have "(- ((- n) div c)) * c = - ((- n) div c * c)" by simp
  then have a: "(- ((- n) div c)) * c = n + (- n) mod c" using e by linarith
  show "n \<le> (- ((- n) div c)) * c" using a m(1) by linarith
  have "(- ((- n) div c) - 1) * c = (- ((- n) div c)) * c - c" by (simp add: algebra_simps)
  then show "(- ((- n) div c) - 1) * c < n" using a m(2) by linarith
qed

lemma div_floor_page:
  fixes a c :: int
  assumes "0 < c"
  shows "c * (a div c) \<le> a"
proof -
  have "c * (a div c) + a mod c = a" by simp
  moreover have "0 \<le> a mod c" using assms by simp
  ultimately show ?thesis by linarith
qed

lemma grid_layout_value:
  assumes "fp_round rnd" "1 \<le> n" "n < 2 ^ 50"
  shows "grid_layout rnd n W H p =
           Inr (\<lfloor>sqrt (real n)\<rfloor>, - ((- int n) div \<lfloor>sqrt (real n)\<rfloor>),
                (W - p * (\<lfloor>sqrt (real n)\<rfloor> + 1)) div \<lfloor>sqrt (real n)\<rfloor>,
                (H - p * (- ((- int n) div \<lfloor>sqrt (real n)\<rfloor>) + 1))
                  div (- ((- int n) div \<lfloor>sqrt (real n)\<rfloor>)))"
    and "1 \<le> \<lfloor>sqrt (real n)\<rfloor>"
    and "1 \<le> - ((- int n) div \<lfloor>sqrt (real n)\<rfloor>)"
proof -
  define cols where "cols = \<lfloor>sqrt (real n)\<rfloor>"
  define rows where "rows = - ((- int n) div cols)"
  have c: "py_int (rnd (sqrt (real n))) = cols" "1 \<le> cols"
    using py_int_sqrt [OF assms] by (simp_all add: cols_def)
  have c0: "0 < cols" using c(2) by simp
  have r: "int n \<le> rows * cols"
    using neg_div_ceiling [OF c0, of "int n"] by (simp add: rows_def)
  have r1: "1 \<le> rows"
  proof (rule ccontr)
    assume "\<not> 1 \<le> rows"
    then have "rows \<le> 0" by simp
    then have "rows * cols \<le> 0" using c0 by (simp add: mult_le_0_iff)
    then show False using r assms(2) by simp
  qed
  show "1 \<le> \<lfloor>sqrt (real n)\<rfloor>" using c(2) by (simp add: cols_def)
  show "1 \<le> - ((- int n) div \<lfloor>sqrt (real n)\<rfloor>)" using r1 by (simp add: rows_def cols_def)
  show "grid_layout rnd n W H p =
           Inr (\<lfloor>sqrt (real n)\<rfloor>, - ((- int n) div \<lfloor>sqrt (real n)\<rfloor>),
                (W - p * (\<lfloor>sqrt (real n)\<rfloor> + 1)) div \<lfloor>sqrt (real n)\<rfloor>,
                (H - p * (- ((- int n) div \<lfloor>sqrt (real n)\<rfloor>) + 1))
                  div (- ((- int n) div \<lfloor>sqrt (real n)\<rfloor>)))"
    using c r1 unfolding rows_def cols_def [symmetric] by (simp add: grid_layout_def Let_def)
qed

text \<open>
  Claim C1: for every image count \<open>n \<ge> 1\<close>, page width \<open>W\<close>, height \<open>H\<close> and padding \<open>p\<close>
  the layout is computed, with \<open>cols = floor (sqrt n)\<close>, \<open>rows = ceiling (n / cols)\<close>, that
  is \<open>rows * cols \<ge> n > (rows - 1) * cols\<close>, and the cell sizes are the floor quotients
  \<open>(W - p * (cols + 1)) div cols\<close> and \<open>(H - p * (rows + 1)) div rows\<close>, so that the cells and
  their padding never exceed the page. The count is below \<open>2 ^ 50\<close>, where the float square
  root cannot round across an integer.
\<close>

theorem grid_layout_spec:
  assumes "fp_round rnd" "1 \<le> n" "n < 2 ^ 50"
  shows "\<exists>cols rows cellW cellH.
           grid_layout rnd n W H p = Inr (cols, rows, cellW, cellH) \<and>
           cols = \<lfloor>sqrt (real n)\<rfloor> \<and> 1 \<le> cols \<and>
           rows = \<lceil>real n / of_int cols\<rceil> \<and>
           int n \<le> rows * cols \<and> (rows - 1) * cols < int n \<and>
           cellW = (W - p * (cols + 1)) div cols \<and>
           cellH = (H - p * (rows + 1)) div rows \<and>
           cols * cellW + p * (cols + 1) \<le> W \<and>
           rows * cellH + p * (rows + 1) \<le> H"
proof -
  define cols where "cols = \<lfloor>sqrt (real n)\<rfloor>"
  define rows where "rows = - ((- int n) div cols)"
  note v = grid_layout_value(1) [OF assms, of W H p, folded cols_def, folded rows_def]
  note pos = grid_layout_value(2,3) [OF assms, folded cols_def, folded rows_def]
  have c0: "0 < cols" and r0: "0 < rows" using pos by simp_all
  have r: "int n \<le> rows * cols" "(rows - 1) * cols < int n"
    using neg_div_ceiling [OF c0, of "int n"] by (simp_all add: rows_def)
  have rc: "rows = \<lceil>real n / of_int cols\<rceil>"
    using ceiling_divide_eq_div [where ?'a = real, of "int n" cols] by (simp add: rows_def)
  have b1: "cols * ((W - p * (cols + 1)) div cols) + p * (cols + 1) \<le> W"
    using div_floor_page [OF c0, of "W - p * (cols + 1)"] by linarith
  have b2: "rows * ((H - p * (rows + 1)) div rows) + p * (rows + 1) \<le> H"
    using div_floor_page [OF r0, of "H - p * (rows + 1)"] by linarith
  show ?thesis using v pos(1) r rc b1 b2 cols_def by blast
qed

lemma floor_sqrt_30: "\<lfloor>sqrt (real 30)\<rfloor> = 5"
proof -
  have "5 \<le> sqrt (real 30)" by (rule real_le_rsqrt) simp
  moreover have "sqrt (real 30) < 6" by (rule real_less_lsqrt) simp_all
  ultimately show ?thesis by (simp add: floor_eq_iff)
qed

theorem grid_layout_spec_witness:
  "fp_round exact \<and> (1::nat) \<le> 30 \<and> (30::nat) < 2 ^ 50 \<and>
   grid_layout exact 30 5100 6600 6 = Inr (5, 6, 1012, 1093)"
proof -
  have h: "(1::nat) \<le> 30" "(30::nat) < 2 ^ 50" by simp_all
  from grid_layout_spec [OF fp_round_exact h, of 5100 6600 6]
  obtain cols rows cellW cellH where g:
    "grid_layout exact 30 5100 6600 6 = Inr (cols, rows, cellW, cellH)"
    "cols = \<lfloor>sqrt (real 30)\<rfloor>" "rows = \<lceil>real 30 / of_int cols\<rceil>"
    "cellW = (5100 - 6 * (cols + 1)) div cols" "cellH = (6600 - 6 * (rows + 1)) div rows"
    by blast
  have c: "cols = 5" using g(2) floor_sqrt_30 by simp
  have r: "rows = 6" using g(3) c by simp
  have "cellW = 1012" "cellH = 1093" using g(4,5) c r by simp_all
  then show ?thesis using g(1) c r h fp_round_exact by simp
qed

section \<open>Invalid geometry\<close>






lemma grid_layout_negative_cell: "grid_layout exact 1 10 10 6 = Inr (1, 1, - 2, - 2)"
  by (simp add: grid_layout_def exact_def py_int_def)



section \<open>Placement\<close>

lemma place_image_demo:
  "place_image demo_env demo_params 1012 1012 1 1000 1000 True 0 ((2000, 4000), ''a.jpg'', ''01-01'')
     = Inr [Paste (506, 6) (508, 1008), DrawText (511, 11) ''01-01'' (0, 0, 0, 255),
            DrawText (510, 10) ''01-01'' (255, 255, 255, 255)]"
  by (simp add: place_image_def fit_image_demo demo_env_def demo_params_def
      exact_def py_int_def x_offset_of_def y_offset_of_def with_border_def date_str_at_def Let_def)

lemma output_name_demo_1:
  "output_name [] ''collage'' ''20240101'' (Suc 0) = ''collage-20240101-1.png''"
proof -
  have "output_name [] ''collage'' ''20240101'' 1 = ''collage-20240101-1.png''" by code_simp
  then show ?thesis by simp
qed

lemma output_name_demo_2:
  "output_name [''collage-20240101-1.png''] ''collage'' ''20240101'' 2 = ''collage-20240101-2.png''"
  by code_simp

lemma grid_layout_one: "grid_layout exact (Suc 0) 1012 1012 6 = Inr (1, 1, 1000, 1000)"
  by (simp add: grid_layout_def exact_def py_int_def)

lemma create_collage_demo_1:
  "create_collage demo_env [((2000, 4000), ''a.jpg'', ''01-01'')] (Suc 0) 1012 1012 demo_params True []
     = (Inr (''collage-20240101-1.png'',
             [Paste (506, 6) (508, 1008), DrawText (511, 11) ''01-01'' (0, 0, 0, 255),
              DrawText (510, 10) ''01-01'' (255, 255, 255, 255)]),
        [''collage-20240101-1.png''])"
proof -
  have a: "env_rnd demo_env = exact" "p_padding demo_params = 6" "p_info_box demo_params = False"
    "p_prefix demo_params = ''collage''" "env_today demo_env = ''20240101''"
    "env_new_ok demo_env (1012, 1012)" "env_font_ok demo_env"
    "env_save_ok demo_env ''collage-20240101-1.png''"
    by (simp_all add: demo_env_def demo_params_def)
  show ?thesis
    by (simp add: create_collage_def a grid_layout_one place_image_demo info_panel_def
        output_name_demo_1 Let_def)
qed

text \<open>
  Claim C8, as stated, takes \<open>(imgW, imgH)\<close> to be the size of the fitted image including
  its border. On a page of 1012 by 1012 with padding 6, right alignment and a border of 4,
  an image of 2000 by 4000 is scaled to 500 by 1000 and pasted with its border as 508 by
  1008 at \<open>(506, 6)\<close>: the offsets come from the size before the border, while the
  formulas of the claim, with 508 and 1008, give 498 and 2.
\<close>

theorem create_collage_border_offsets_counterexample:
  "create_collage demo_env [((2000, 4000), ''a.jpg'', ''01-01'')] (Suc 0) 1012 1012 demo_params True []
     = (Inr (''collage-20240101-1.png'',
             [Paste (506, 6) (508, 1008), DrawText (511, 11) ''01-01'' (0, 0, 0, 255),
              DrawText (510, 10) ''01-01'' (255, 255, 255, 255)]),
        [''collage-20240101-1.png'']) \<and>
   p_align demo_params = ''right'' \<and> p_border demo_params \<and>
   (506::int) \<noteq> (0 mod 1 + 1) * (1000 + 6) - 508 \<and>
   (6::int) \<noteq> (0 div 1) * (1000 + 6) + (1000 - 1008) div 2 + 6"
  by (simp add: create_collage_demo_1) (simp add: demo_params_def)

text \<open>
  Claim C8, amended: with \<open>(row, col) = divmod(i, cols)\<close> and \<open>(imgW, imgH)\<close> the size of the
  image as scaled by the Image Fitter, before the border is added, the horizontal offset is
  \<open>col * (cellW + p) + p\<close> for left alignment, \<open>(col + 1) * (cellW + p) - imgW\<close> for right and
  \<open>col * (cellW + p) + (cellW - imgW) div 2 + p\<close> for centre, and the vertical offset is
  \<open>row * (cellH + p) + (cellH - imgH) div 2 + p\<close>; the image is pasted there with its border,
  and the date string is drawn at the offset plus the border thickness, first in black one
  pixel down and right, then in white, both with the alpha value of the configured opacity.
\<close>

theorem place_image_offsets:
  assumes "place_image env p width height num_cols img_width img_height verbose i im = Inr ops"
  shows "\<exists>fw fh x y date_str a.
           fit_image (env_rnd env) width height img_width img_height (fst im) = Inr (fw, fh) \<and>
           date_str_at env i = Inr date_str \<and>
           ops = [Paste (x, y)
                    (if p_border p
                     then (fw + p_border_thickness p * 2, fh + p_border_thickness p * 2)
                     else (fw, fh)),
                  DrawText (x + p_border_thickness p + 1, y + p_border_thickness p + 1)
                    date_str (0, 0, 0, a),
                  DrawText (x + p_border_thickness p, y + p_border_thickness p)
                    date_str (255, 255, 255, a)] \<and>
           a = py_int (env_rnd env (255 * p_text_opacity p)) \<and>
           (p_align p = ''left'' \<longrightarrow>
              x = (int i mod num_cols) * (img_width + p_padding p) + p_padding p) \<and>
           (p_align p = ''right'' \<longrightarrow>
              x = (int i mod num_cols + 1) * (img_width + p_padding p) - fw) \<and>
           (p_align p \<noteq> ''left'' \<and> p_align p \<noteq> ''right'' \<longrightarrow>
              x = (int i mod num_cols) * (img_width + p_padding p) + (img_width - fw) div 2
                  + p_padding p) \<and>
           y = (int i div num_cols) * (img_height + p_padding p) + (img_height - fh) div 2
               + p_padding p"
proof -
  obtain sz where f: "fit_image (env_rnd env) width height img_width img_height (fst im) = Inr sz"
    using assms by (auto simp: place_image_def Let_def split: sum.splits)
  obtain date_str where d: "date_str_at env i = Inr date_str"
    using assms f by (auto simp: place_image_def Let_def split: sum.splits if_splits)
  define x where "x = x_offset_of (p_align p) (int i mod num_cols) img_width (p_padding p) (fst sz)"
  define y where "y = y_offset_of (int i div num_cols) img_height (p_padding p) (snd sz)"
  have o: "ops = [Paste (x, y) (with_border p sz),
                  DrawText (x + p_border_thickness p + 1, y + p_border_thickness p + 1)
                    date_str (0, 0, 0, py_int (env_rnd env (255 * p_text_opacity p))),
                  DrawText (x + p_border_thickness p, y + p_border_thickness p)
                    date_str (255, 255, 255, py_int (env_rnd env (255 * p_text_opacity p)))]"
    using assms f d by (auto simp: place_image_def Let_def x_def y_def split: if_splits)
  have f': "fit_image (env_rnd env) width height img_width img_height (fst im) = Inr (fst sz, snd sz)"
    using f by simp
  show ?thesis
    apply (rule exI [of _ "fst sz"], rule exI [of _ "snd sz"], rule exI [of _ x], rule exI [of _ y],
        rule exI [of _ date_str], rule exI [of _ "py_int (env_rnd env (255 * p_text_opacity p))"])
    using f' d o by (simp add: with_border_def x_def y_def x_offset_of_def y_offset_of_def)
qed

theorem place_image_offsets_witness:
  "place_image demo_env demo_params 1012 1012 1 1000 1000 True 0 ((2000, 4000), ''a.jpg'', ''01-01'')
     = Inr [Paste (506, 6) (508, 1008), DrawText (511, 11) ''01-01'' (0, 0, 0, 255),
            DrawText (510, 10) ''01-01'' (255, 255, 255, 255)] \<and>
   fit_image (env_rnd demo_env) 1012 1012 1000 1000 (2000, 4000) = Inr (500, 1000) \<and>
   (506::int) = (0 mod 1 + 1) * (1000 + 6) - 500 \<and>
   (6::int) = (0 div 1) * (1000 + 6) + (1000 - 1000) div 2 + 6"
proof -
  have f: "fit_image (env_rnd demo_env) 1012 1012 1000 1000 (2000, 4000) = Inr (500, 1000)"
    using fit_image_demo by (simp add: demo_env_def)
  show ?thesis
    using place_image_offsets [OF place_image_demo] place_image_demo f by simp
qed

section \<open>Captions\<close>

lemma create_collage_demo_2:
  "create_collage demo_env [((2000, 4000), ''b.jpg'', ''02-02'')] 2 1012 1012 demo_params True
       [''collage-20240101-1.png'']
     = (Inr (''collage-20240101-2.png'',
             [Paste (506, 6) (508, 1008), DrawText (511, 11) ''01-01'' (0, 0, 0, 255),
              DrawText (510, 10) ''01-01'' (255, 255, 255, 255)]),
        [''collage-20240101-2.png'', ''collage-20240101-1.png''])"
  by (simp add: create_collage_def grid_layout_def place_image_def fit_image_def orient_def
      rotates_def scaled_size_def scale_factor_def exact_def py_int_def demo_env_def
      demo_params_def x_offset_of_def y_offset_of_def with_border_def date_str_at_def
      info_panel_def output_name_demo_2 Let_def)

lemma collage_groups_demo:
  "collage_groups [((2000, 4000), ''a.jpg'', ''01-01''), ((2000::int, 4000::int), ''b.jpg'', ''02-02'')] 1
     = Inr [[((2000, 4000), ''a.jpg'', ''01-01'')], [((2000, 4000), ''b.jpg'', ''02-02'')]]"
  by code_simp

lemma numbered_groups_demo:
  "numbered_groups [[((2000::int, 4000::int), ''a.jpg'', ''01-01'')], [((2000, 4000), ''b.jpg'', ''02-02'')]]
     = [(Suc 0, [((2000, 4000), ''a.jpg'', ''01-01'')]), (2, [((2000, 4000), ''b.jpg'', ''02-02'')])]"
proof -
  have "numbered_groups [[((2000::int, 4000::int), ''a.jpg'', ''01-01'')], [((2000, 4000), ''b.jpg'', ''02-02'')]]
     = [(1, [((2000, 4000), ''a.jpg'', ''01-01'')]), (2, [((2000, 4000), ''b.jpg'', ''02-02'')])]"
    by code_simp
  then show ?thesis by simp
qed

text \<open>
  Claim C9 says that the string stamped on an image is the creation date supplied with
  that image. The source instead reads the modification time of the \<open>i\<close>-th entry of a
  fresh listing of the directory \<^verbatim>\<open>images\<close>, where \<open>i\<close> is the index within the page. With
  one image per page and the files \<^verbatim>\<open>a.jpg\<close> (dated 01-01) and \<^verbatim>\<open>b.jpg\<close> (dated 02-02),
  the second page holds \<^verbatim>\<open>b.jpg\<close> and is stamped 01-01, the date of \<^verbatim>\<open>a.jpg\<close>.
\<close>

theorem generate_collages_caption_dates:
  "generate_collages demo_env demo_params
     [((2000, 4000), ''a.jpg'', ''01-01''), ((2000, 4000), ''b.jpg'', ''02-02'')] []
   = (Inr [(''collage-20240101-1.png'',
            [Paste (506, 6) (508, 1008), DrawText (511, 11) ''01-01'' (0, 0, 0, 255),
             DrawText (510, 10) ''01-01'' (255, 255, 255, 255)]),
           (''collage-20240101-2.png'',
            [Paste (506, 6) (508, 1008), DrawText (511, 11) ''01-01'' (0, 0, 0, 255),
             DrawText (510, 10) ''01-01'' (255, 255, 255, 255)])],
      [''collage-20240101-2.png'', ''collage-20240101-1.png''])"
proof -
  have a: "p_width demo_params = 1012" "p_height demo_params = 1012" "p_verbose demo_params = True"
    "p_pics_per_page demo_params = 1"
    by (simp_all add: demo_params_def)
  show ?thesis
    by (simp add: generate_collages_def collage_groups_demo numbered_groups_demo a
        create_collage_demo_1 create_collage_demo_2)
qed

section \<open>The output namer\<close>

declare name_loop.simps [simp del]






section \<open>Batching\<close>

declare range_step.simps [simp del]

lemma concat_groups_from:
  "0 < k \<Longrightarrow> concat (map (\<lambda>j. take k (drop j xs)) (range_step i (length xs) k)) = drop i xs"
proof (induction i "length xs" k rule: range_step.induct)
  case (1 i step)
  show ?case
  proof (cases "i < length xs")
    case True
    have "take step (drop i xs) @ drop (i + step) xs = drop i xs"
      by (metis add.commute append_take_drop_id drop_drop)
    with 1 True show ?thesis by (simp add: range_step.simps [of i])
  next
    case False
    then show ?thesis by (simp add: range_step.simps [of i])
  qed
qed

lemma lengths_groups_from:
  "0 < k \<Longrightarrow>
   map (\<lambda>j. length (take k (drop j xs))) (range_step i (length xs) k) =
     replicate ((length xs - i) div k) k @
     (if (length xs - i) mod k = 0 then [] else [(length xs - i) mod k])"
proof (induction i "length xs" k rule: range_step.induct)
  case (1 i step)
  show ?case
  proof (cases "i < length xs")
    case True
    show ?thesis
    proof (cases "step \<le> length xs - i")
      case le: True
      have d: "(length xs - i) div step = Suc ((length xs - (i + step)) div step)"
        using le 1(2) by (metis Suc_eq_plus1 diff_diff_left div_add_self2 le_add_diff_inverse2 less_numeral_extra(3) add.commute)
      have m: "(length xs - i) mod step = (length xs - (i + step)) mod step"
        using le by (metis diff_diff_left le_mod_geq)
      show ?thesis using 1 True le by (simp add: range_step.simps [of i] d m)
    next
      case False
      then have "length xs \<le> i + step" by simp
      then have e: "range_step (i + step) (length xs) step = []"
        by (simp add: range_step.simps [of "i + step"])
      show ?thesis using True False 1(2) by (simp add: range_step.simps [of i] e)
    qed
  next
    case False
    then show ?thesis by (simp add: range_step.simps [of i])
  qed
qed

lemma chunk_lengths_shape:
  fixes k :: nat
  assumes "L = replicate q k @ (if m = 0 then [] else [m])" "m < k"
  shows "(\<forall>x \<in> set (butlast L). x = k) \<and> (L \<noteq> [] \<longrightarrow> 0 < last L \<and> last L \<le> k)"
proof (cases "m = 0")
  case True
  then have L: "L = replicate q k" using assms(1) by simp
  have "set (butlast L) \<subseteq> set L" by (meson in_set_butlastD subsetI)
  then have "\<forall>x \<in> set (butlast L). x = k" using L by auto
  moreover have "L \<noteq> [] \<longrightarrow> last L = k" using L by (cases q) simp_all
  ultimately show ?thesis using assms(2) by auto
next
  case False
  then have L: "L = replicate q k @ [m]" using assms(1) by simp
  then have "butlast L = replicate q k" "last L = m" by simp_all
  then show ?thesis using False assms(2) by auto
qed

lemma numbered_groups_fst: "map fst (numbered_groups groups) = [1..<Suc (length groups)]"
proof -
  have "map fst (numbered_groups groups) = map Suc (map fst (enumerate 0 groups))"
    unfolding numbered_groups_def by (simp add: case_prod_unfold comp_def del: map_fst_enumerate)
  also have "\<dots> = [1..<Suc (length groups)]"
    by (simp add: map_Suc_upt)
  finally show ?thesis .
qed

lemma numbered_groups_snd: "map snd (numbered_groups groups) = groups"
  by (simp add: numbered_groups_def case_prod_unfold comp_def)

text \<open>
  Claim C6: for every sequence of images and every \<open>pics_per_page \<ge> 1\<close>, the groups are
  contiguous chunks whose concatenation is the input; every chunk but the last holds
  exactly \<open>pics_per_page\<close> images and the last one is not empty and holds at most that
  many; the pages are numbered 1, 2, ... in order. The list of chunk lengths is given in
  closed form, so 31 images at 30 per page give the lengths 30 and 1.
\<close>

theorem collage_groups_partition:
  assumes "1 \<le> pics_per_page"
  shows "\<exists>groups. collage_groups images pics_per_page = Inr groups \<and>
     concat groups = images \<and>
     map length groups =
       replicate (length images div nat pics_per_page) (nat pics_per_page) @
       (if length images mod nat pics_per_page = 0 then []
        else [length images mod nat pics_per_page]) \<and>
     (\<forall>g \<in> set (butlast groups). int (length g) = pics_per_page) \<and>
     (groups \<noteq> [] \<longrightarrow> last groups \<noteq> [] \<and> int (length (last groups)) \<le> pics_per_page) \<and>
     map fst (numbered_groups groups) = [1..<Suc (length groups)] \<and>
     map snd (numbered_groups groups) = groups"
proof -
  define k where "k = nat pics_per_page"
  define groups where
    "groups = map (\<lambda>i. take k (drop i images)) (range_step 0 (length images) k)"
  have k: "0 < k" "int k = pics_per_page" using assms by (simp_all add: k_def)
  have g: "collage_groups images pics_per_page = Inr groups"
    using assms by (simp add: collage_groups_def groups_def k_def)
  have c: "concat groups = images"
    using concat_groups_from [OF k(1), of images 0] by (simp add: groups_def)
  have l: "map length groups =
       replicate (length images div k) k @
       (if length images mod k = 0 then [] else [length images mod k])"
    using lengths_groups_from [OF k(1), of images 0] by (simp add: groups_def comp_def)
  have sh: "(\<forall>x \<in> set (butlast (map length groups)). x = k) \<and>
     (map length groups \<noteq> [] \<longrightarrow> 0 < last (map length groups) \<and> last (map length groups) \<le> k)"
    using chunk_lengths_shape [OF l] k(1) by simp
  have b: "\<forall>g \<in> set (butlast groups). int (length g) = pics_per_page"
  proof
    fix g assume "g \<in> set (butlast groups)"
    then have "length g \<in> set (butlast (map length groups))"
      by (simp add: map_butlast [symmetric])
    then show "int (length g) = pics_per_page" using sh k(2) by auto
  qed
  have la: "groups \<noteq> [] \<longrightarrow> last groups \<noteq> [] \<and> int (length (last groups)) \<le> pics_per_page"
  proof
    assume ne: "groups \<noteq> []"
    then have "last (map length groups) = length (last groups)" by (simp add: last_map)
    then have "0 < length (last groups) \<and> length (last groups) \<le> k" using sh ne by simp
    then show "last groups \<noteq> [] \<and> int (length (last groups)) \<le> pics_per_page"
      using k(2) by auto
  qed
  show ?thesis
    using g c l b la numbered_groups_fst [of groups] numbered_groups_snd [of groups]
    unfolding k_def by blast
qed

theorem collage_groups_partition_witness:
  "(1::int) \<le> 30 \<and>
   (\<exists>groups. collage_groups [1..<32] 30 = Inr groups \<and> concat groups = [1..<32] \<and>
      map length groups = [30, 1] \<and> map fst (numbered_groups groups) = [1, 2])"
proof -
  have n: "length [1..<32::nat] = 31" "nat 30 = 30" "(31::nat) div 30 = 1" "(31::nat) mod 30 = 1"
    by simp_all
  obtain groups where g: "collage_groups [1..<32::nat] 30 = Inr groups"
    "concat groups = [1..<32]"
    "map length groups =
       replicate (length [1..<32::nat] div nat 30) (nat 30) @
       (if length [1..<32::nat] mod nat 30 = 0 then []
        else [length [1..<32::nat] mod nat 30])"
    "map fst (numbered_groups groups) = [1..<Suc (length groups)]"
    using collage_groups_partition [of 30 "[1..<32::nat]"] by auto
  have l: "map length groups = [30, 1]" using g(3) unfolding n by simp
  then have "length groups = 2" by (metis length_map length_Cons list.size(3) One_nat_def Suc_1)
  then have "map fst (numbered_groups groups) = [1, 2]" using g(4) by (simp add: upt_rec)
  then show ?thesis using g(1,2) l by auto
qed

end
